theory Spec2Isabelle
  imports Main "HOL-Library.Char_ord" "HOL-Library.List_Lexorder"
    "HOL-Library.Product_Lexorder" "HOL-Library.Multiset"
begin

section \<open>decrepit.py: the version-resolution engine\<close>

text \<open>
  A shallow embedding of \<^verbatim>\<open>src/decrepit.py\<close>, run as a script. Python strings are
  modelled as \<^typ>\<open>string\<close> with one \<^typ>\<open>char\<close> per code point below 256, byte
  strings likewise, encoding and decoding being inverse to each other; Python integers
  are \<^typ>\<open>int\<close>, without the limit that later interpreters put on the length of a
  printed integer; exceptions are the left summand of a sum type. Trace output (the
  function \<^verbatim>\<open>trace\<close>, which only writes to stderr when the verbose flag is set) is
  not part of the model, and assertions are enabled.
\<close>

subsection \<open>Exceptions\<close>

datatype exn =
    KeyError
  | IndexError
  | ValueError
  | OverflowError
  | TypeError
  | AttributeError
  | AssertionError
  | RecursionError
  | PlainException
  | LibraryError string

type_synonym 'a result = "exn + 'a"

subsection \<open>Characters, decimal numerals and \<^verbatim>\<open>int()\<close>\<close>

definition is_digit :: "char \<Rightarrow> bool" where
  "is_digit c = (48 \<le> (of_char c :: nat) \<and> (of_char c :: nat) \<le> 57)"

definition digit_val :: "char \<Rightarrow> nat" where
  "digit_val c = of_char c - 48"

definition digit_char :: "nat \<Rightarrow> char" where
  "digit_char d = char_of (48 + d)"

text \<open>\<^verbatim>\<open>str.isspace\<close> on the code points below 256.\<close>

definition is_space :: "char \<Rightarrow> bool" where
  "is_space c = (let n = (of_char c :: nat) in
     (9 \<le> n \<and> n \<le> 13) \<or> (28 \<le> n \<and> n \<le> 32) \<or> n = 133 \<or> n = 160)"

definition strip :: "string \<Rightarrow> string" where
  "strip s = rev (dropWhile is_space (rev (dropWhile is_space s)))"

text \<open>The decimal numeral of a natural number, as \<^verbatim>\<open>%d\<close> prints it.\<close>

fun digits :: "nat \<Rightarrow> string" where
  "digits n = (if n < 10 then [digit_char n] else digits (n div 10) @ [digit_char (n mod 10)])"

declare digits.simps [simp del]

definition fmt_d :: "int \<Rightarrow> string" where
  "fmt_d i = (if i < 0 then CHR ''-'' # digits (nat (- i)) else digits (nat i))"

text \<open>The value of a digit string read in base ten, from the accumulator \<open>a\<close>.\<close>

definition dec :: "nat \<Rightarrow> string \<Rightarrow> nat" where
  "dec a cs = foldl (\<lambda>a c. 10 * a + digit_val c) a cs"

text \<open>
  The whitespace that \<^verbatim>\<open>int\<close> skips around a numeral: the ASCII whitespace
  (tab to carriage return, and the space) and, of the code points from 127 on, those
  that are Unicode whitespace, U+0085 and U+00A0. The separators U+001C to U+001F, which
  \<^verbatim>\<open>str.strip\<close> removes, are not skipped.
\<close>

definition is_int_space :: "char \<Rightarrow> bool" where
  "is_int_space c = (let n = (of_char c :: nat) in
     (9 \<le> n \<and> n \<le> 13) \<or> n = 32 \<or> n = 133 \<or> n = 160)"

definition int_strip :: "string \<Rightarrow> string" where
  "int_strip s = rev (dropWhile is_int_space (rev (dropWhile is_int_space s)))"

text \<open>
  \<^verbatim>\<open>int(s)\<close> and \<^verbatim>\<open>int(s, 10)\<close> on a string: surrounding whitespace is
  skipped, one sign is allowed, and the digits may be grouped by single underscores
  (Python 3.6 and later). \<open>None\<close> stands for the \<^verbatim>\<open>ValueError\<close>.
\<close>

fun digits_val :: "nat \<Rightarrow> string \<Rightarrow> nat option" where
  "digits_val a [] = Some a"
| "digits_val a (c # cs) =
     (if is_digit c then digits_val (10 * a + digit_val c) cs
      else if c = CHR ''_'' then
        (case cs of [] \<Rightarrow> None
         | d # _ \<Rightarrow> if is_digit d then digits_val a cs else None)
      else None)"

definition py_nat :: "string \<Rightarrow> nat option" where
  "py_nat s = (case s of [] \<Rightarrow> None
     | c # _ \<Rightarrow> if is_digit c then digits_val 0 s else None)"

definition py_int :: "string \<Rightarrow> int option" where
  "py_int s = (case int_strip s of [] \<Rightarrow> None
     | c # r \<Rightarrow>
        if c = CHR ''-'' then map_option (\<lambda>n. - int n) (py_nat r)
        else if c = CHR ''+'' then map_option int (py_nat r)
        else map_option int (py_nat (c # r)))"

subsection \<open>Version normalizer\<close>

type_synonym semver = "int \<times> int \<times> int"

text \<open>\<^verbatim>\<open>fmt_ver(ver) = '%d.%d.%d' % ver\<close>\<close>

fun fmt_ver :: "semver \<Rightarrow> string" where
  "fmt_ver (ma, mi, re) = fmt_d ma @ ''.'' @ fmt_d mi @ ''.'' @ fmt_d re"

text \<open>
  \<^verbatim>\<open>RE_VER.match\<close> for the pattern
  \<^verbatim>\<open>(?P<ma>\d+)[.](?P<mi>\d+)([.](?P<re>\d+))\<close>, anchored at the start of the
  string. A digit run followed by a dot can only match with the whole run, so the
  greedy match is the only one; the result holds the three named groups.
\<close>

definition RE_VER_match :: "string \<Rightarrow> (string \<times> string \<times> string) option" where
  "RE_VER_match s =
     (let ma = takeWhile is_digit s; r1 = dropWhile is_digit s in
      if ma = [] then None else
      case r1 of [] \<Rightarrow> None
      | c1 # r2 \<Rightarrow>
        if c1 \<noteq> CHR ''.'' then None else
        let mi = takeWhile is_digit r2; r3 = dropWhile is_digit r2 in
        if mi = [] then None else
        case r3 of [] \<Rightarrow> None
        | c2 # r4 \<Rightarrow>
          if c2 \<noteq> CHR ''.'' then None else
          let re = takeWhile is_digit r4 in
          if re = [] then None else Some (ma, mi, re))"

text \<open>
  \<^verbatim>\<open>parse_semver\<close>: when the pattern does not match, \<^verbatim>\<open>m\<close> is \<^verbatim>\<open>None\<close> and
  \<^verbatim>\<open>m.group\<close> raises \<^verbatim>\<open>AttributeError\<close>.
\<close>

definition parse_semver :: "string \<Rightarrow> semver result" where
  "parse_semver ver =
     (case RE_VER_match ver of
        None \<Rightarrow> Inl AttributeError
      | Some (ma, mi, re) \<Rightarrow>
         (case (py_int ma, py_int mi, py_int re) of
            (Some a, Some b, Some c) \<Rightarrow> Inr (a, b, c)
          | _ \<Rightarrow> Inl ValueError))"

subsection \<open>The as-of date normalizer\<close>

text \<open>\<^verbatim>\<open>str.split(sep)\<close> for a separator of one character.\<close>

fun str_split :: "char \<Rightarrow> string \<Rightarrow> string list" where
  "str_split sep [] = [[]]"
| "str_split sep (c # cs) =
     (if c = sep then [] # str_split sep cs
      else (case str_split sep cs of [] \<Rightarrow> [[c]] | p # ps \<Rightarrow> (c # p) # ps))"

text \<open>
  \<^verbatim>\<open>%0wd\<close>: the numeral padded with zeros to the width \<open>w\<close>, the sign counting
  in the width.
\<close>

definition zero_pad :: "nat \<Rightarrow> string \<Rightarrow> string" where
  "zero_pad w ds = replicate (w - length ds) CHR ''0'' @ ds"

definition fmt_0d :: "nat \<Rightarrow> int \<Rightarrow> string" where
  "fmt_0d w i = (if i < 0 then CHR ''-'' # zero_pad (w - 1) (digits (nat (- i)))
                 else zero_pad w (digits (nat i)))"

definition is_leap :: "int \<Rightarrow> bool" where
  "is_leap y = (y mod 4 = 0 \<and> (y mod 100 \<noteq> 0 \<or> y mod 400 = 0))"

definition days_in_month :: "int \<Rightarrow> int \<Rightarrow> int" where
  "days_in_month y m =
     (if m = 2 then (if is_leap y then 29 else 28)
      else if m = 4 \<or> m = 6 \<or> m = 9 \<or> m = 11 then 30 else 31)"

definition c_int_ok :: "int \<Rightarrow> bool" where
  "c_int_ok i = (- (2 ^ 31) \<le> i \<and> i < 2 ^ 31)"

text \<open>
  The constructor \<^verbatim>\<open>datetime.date(year, month, day)\<close>: an argument that does not fit
  a C int is an \<^verbatim>\<open>OverflowError\<close>, a year outside 1..9999, a month outside 1..12 or
  a day the month does not have is a \<^verbatim>\<open>ValueError\<close>.
\<close>

definition datetime_date :: "int \<Rightarrow> int \<Rightarrow> int \<Rightarrow> (int \<times> int \<times> int) result" where
  "datetime_date y m d =
     (if \<not> (c_int_ok y \<and> c_int_ok m \<and> c_int_ok d) then Inl OverflowError
      else if \<not> (1 \<le> y \<and> y \<le> 9999) then Inl ValueError
      else if \<not> (1 \<le> m \<and> m \<le> 12) then Inl ValueError
      else if \<not> (1 \<le> d \<and> d \<le> days_in_month y m) then Inl ValueError
      else Inr (y, m, d))"

fun fmt_date :: "int \<times> int \<times> int \<Rightarrow> string" where
  "fmt_date (y, m, d) = fmt_0d 4 y @ ''-'' @ fmt_0d 2 m @ ''-'' @ fmt_0d 2 d"

text \<open>
  \<^verbatim>\<open>parse_date\<close>. The argument \<open>today\<close> is what
  \<^verbatim>\<open>datetime.datetime.now().date()\<close> returns. The list built from the split always
  has three elements, each read by \<^verbatim>\<open>int(p, 10)\<close>.
\<close>

definition parse_date :: "int \<times> int \<times> int \<Rightarrow> string option \<Rightarrow> string result" where
  "parse_date today date =
     (case date of
        None \<Rightarrow> Inr (fmt_date today)
      | Some s \<Rightarrow>
         (case those (map py_int (take 3 (take 3 (str_split CHR ''-'' s) @ [''01'', ''01''])))
          of None \<Rightarrow> Inl ValueError
           | Some [y, m, d] \<Rightarrow>
               (case datetime_date y m d of
                  Inl e \<Rightarrow> Inl e
                | Inr dt \<Rightarrow> Inr (fmt_date dt))
           | Some _ \<Rightarrow> Inl TypeError))"

text \<open>The shape \<^verbatim>\<open>YYYY-MM-DD\<close>: ten characters, digits around two dashes.\<close>

definition is_iso_date :: "string \<Rightarrow> bool" where
  "is_iso_date s =
     (length s = 10 \<and> list_all is_digit (take 4 s) \<and> s ! 4 = CHR ''-''
      \<and> list_all is_digit (take 2 (drop 5 s)) \<and> s ! 7 = CHR ''-''
      \<and> list_all is_digit (drop 8 s))"

subsection \<open>Batch coordinator: sorting and the headline answer\<close>

text \<open>The sentinel version, \<^verbatim>\<open>parse_semver('0.0.0')\<close>.\<close>

definition sentinel :: semver where
  "sentinel = (0, 0, 0)"

text \<open>
  \<^verbatim>\<open>sorted(pkg_vers, key = lambda dv: (dv[1], dv[0]))\<close>: tuples and strings compare
  lexicographically, integers numerically, characters by code point; the sort is stable.
\<close>

definition sorted_pkg_vers :: "(string \<times> semver) list \<Rightarrow> (string \<times> semver) list" where
  "sorted_pkg_vers pkg_vers = sort_key (\<lambda>(d, v). (v, d)) pkg_vers"

text \<open>Lines 240 to 244 of \<^verbatim>\<open>main\<close>: sort, then format each version.\<close>

definition fmt_pkg_vers :: "(string \<times> semver) list \<Rightarrow> (string \<times> string) list" where
  "fmt_pkg_vers pkg_vers = map (\<lambda>(d, v). (d, fmt_ver v)) (sorted_pkg_vers pkg_vers)"

text \<open>
  Lines 271 and 272: \<^verbatim>\<open>vs = [v for (_, v) in pkg_vers if v != '0.0.0'] + ['unknown']\<close>
  and \<^verbatim>\<open>print(vs[0])\<close>. The list \<open>vs\<close> is never empty.
\<close>

definition headline :: "(string \<times> string) list \<Rightarrow> string" where
  "headline pkg_vers = hd (filter (\<lambda>v. v \<noteq> ''0.0.0'') (map snd pkg_vers) @ [''unknown''])"

text \<open>
  The end of \<^verbatim>\<open>main\<close> in the default mode (no \<^verbatim>\<open>--all\<close>), from the collected
  results on: the exit code and the line printed.
\<close>

definition main_default :: "(string \<times> semver) list \<Rightarrow> nat \<times> string" where
  "main_default pkg_vers =
     (let pkg_vers' = fmt_pkg_vers pkg_vers in
      if length pkg_vers' = 0 then (2, ''error: no packages found!'')
      else (0, headline pkg_vers'))"

subsection \<open>The world outside the program\<close>

text \<open>
  The release argument handed to a resolver: \<^verbatim>\<open>None\<close>, a string, a dictionary of
  template fields, or any other value. The program itself passes strings. Tuples, which
  the trace line of a resolver cannot format, are left out of the other values.
\<close>

datatype release_arg = ArgNone | ArgStr string | ArgDict "string \<rightharpoonup> string" | ArgOther

text \<open>
  A Python dictionary with string keys and string values is a finite map. The method
  \<^verbatim>\<open>new.update(items)\<close> is \<open>new ++ items\<close>, where the right map wins.
\<close>

type_synonym pydict = "string \<rightharpoonup> string"

text \<open>
  An HTTP response as the program uses it: the \<^verbatim>\<open>etag\<close> header, absent or present,
  and what \<^verbatim>\<open>read()\<close> gives, the body or an exception.
\<close>

record response =
  r_etag :: "string option"
  r_body :: "string result"

text \<open>
  A match object: the named groups of the pattern, each with the text it captured or
  \<open>None\<close> when the group took no part in the match. Asking for a group the pattern
  does not have is an \<^verbatim>\<open>IndexError\<close>.
\<close>

type_synonym re_match = "string \<rightharpoonup> string option"

text \<open>
  What the program touches and mutates: the files of the temporary directory, by path,
  and the log of the network requests made, in order. A file that cannot be opened, read
  or decoded counts as absent.
\<close>

datatype net_event = Opened string | ReadBody string

record sys_state =
  files :: "string \<rightharpoonup> string"
  net_log :: "net_event list"

text \<open>
  The libraries and the network are parameters: \<^verbatim>\<open>tempfile.gettempdir()\<close>, whether a
  path can be opened for writing, \<^verbatim>\<open>urllib.request.urlopen\<close>,
  \<^verbatim>\<open>str.format(**fields)\<close>, \<^verbatim>\<open>lxml.html.fromstring(doc).xpath(path)\<close> with every
  result stringified, \<^verbatim>\<open>re.compile\<close> (whether the pattern is accepted) and
  \<^verbatim>\<open>search\<close> of the compiled pattern, and for the Nix index
  \<^verbatim>\<open>json.loads(gzip.decompress(bs).decode('utf-8'))['packages']['rustc']['name']\<close>.
  The resolvers \<^verbatim>\<open>get_fedora\<close>, \<^verbatim>\<open>get_freebsd\<close> and \<^verbatim>\<open>get_openbsd\<close> are the
  subject of no statement below and enter as arbitrary resolvers.
\<close>

record world =
  w_tempdir :: "string option"
  w_writable :: "string \<Rightarrow> bool"
  w_urlopen :: "string \<Rightarrow> response result"
  w_format :: "string \<Rightarrow> pydict \<Rightarrow> string result"
  w_xpath :: "string \<Rightarrow> string \<Rightarrow> string list result"
  w_re_compile_ok :: "string \<Rightarrow> bool"
  w_re_search :: "string \<Rightarrow> string \<Rightarrow> re_match option"
  w_nix_rustc_name :: "string \<Rightarrow> string result"
  w_get_fedora :: "release_arg \<Rightarrow> sys_state \<Rightarrow> semver result \<times> sys_state"
  w_get_freebsd :: "release_arg \<Rightarrow> sys_state \<Rightarrow> semver result \<times> sys_state"
  w_get_openbsd :: "release_arg \<Rightarrow> sys_state \<Rightarrow> semver result \<times> sys_state"

definition log_event :: "net_event \<Rightarrow> sys_state \<Rightarrow> sys_state" where
  "log_event ev st = st\<lparr>net_log := net_log st @ [ev]\<rparr>"

text \<open>\<^verbatim>\<open>urlopen(url)\<close>: the request is logged, then answered by the world.\<close>

definition urlopen :: "world \<Rightarrow> string \<Rightarrow> sys_state \<Rightarrow> response result \<times> sys_state" where
  "urlopen w url st = (w_urlopen w url, log_event (Opened url) st)"

text \<open>\<^verbatim>\<open>req.read()\<close> on the response of \<open>url\<close>.\<close>

definition read_body :: "string \<Rightarrow> response \<Rightarrow> sys_state \<Rightarrow> string result \<times> sys_state" where
  "read_body url req st = (r_body req, log_event (ReadBody url) st)"

text \<open>\<^verbatim>\<open>os.path.join\<close> of two components, on POSIX.\<close>

definition path_join :: "string \<Rightarrow> string \<Rightarrow> string" where
  "path_join a b =
     (if b \<noteq> [] \<and> hd b = CHR ''/'' then b
      else if a = [] \<or> last a = CHR ''/'' then a @ b
      else a @ ''/'' @ b)"

subsection \<open>The compressed-index resolver\<close>

definition ROLLING :: string where
  "ROLLING = ''(rolling)''"

definition NIXOS_URL :: string where
  "NIXOS_URL = ''http://nixos.org/nixpkgs/packages.json.gz''"

definition etag_path :: "string \<Rightarrow> string" where
  "etag_path tempdir = path_join tempdir ''decrepit-nixos-packages.json.gz.etag''"

definition bs_gz_path :: "string \<Rightarrow> string" where
  "bs_gz_path tempdir = path_join tempdir ''decrepit-nixos-packages.json.gz''"

text \<open>
  \<^verbatim>\<open>re.compile(r'rustc-(\d+[.]\d+[.]\d+)').search(name).group(1)\<close>: the leftmost place
  where \<^verbatim>\<open>rustc-\<close> is followed by three dot-separated digit runs, and the text of
  the runs; \<open>None\<close> when there is no such place.
\<close>

definition rustc_match_here :: "string \<Rightarrow> string option" where
  "rustc_match_here s =
     (if take 6 s = ''rustc-'' then
        (case RE_VER_match (drop 6 s) of
           None \<Rightarrow> None
         | Some (ma, mi, re) \<Rightarrow> Some (ma @ ''.'' @ mi @ ''.'' @ re))
      else None)"

fun rustc_search :: "string \<Rightarrow> string option" where
  "rustc_search [] = None"
| "rustc_search (c # cs) =
     (case rustc_match_here (c # cs) of Some g \<Rightarrow> Some g | None \<Rightarrow> rustc_search cs)"

text \<open>
  The end of \<^verbatim>\<open>get_nixos\<close>, from \<^verbatim>\<open>gzip.decompress\<close> on: the version named by
  a payload. A failed search gives \<^verbatim>\<open>None\<close>, whose \<^verbatim>\<open>group\<close> is an
  \<^verbatim>\<open>AttributeError\<close>.
\<close>

definition nixos_version :: "world \<Rightarrow> string \<Rightarrow> semver result" where
  "nixos_version w json_bs_gz =
     (case w_nix_rustc_name w json_bs_gz of
        Inl e \<Rightarrow> Inl e
      | Inr name \<Rightarrow>
         (case rustc_search name of
            None \<Rightarrow> Inl AttributeError
          | Some ver \<Rightarrow> parse_semver ver))"

text \<open>
  \<^verbatim>\<open>last_etag\<close>: the stored token, stripped, when there is a temporary directory and
  the token file can be read; \<^verbatim>\<open>None\<close> otherwise.
\<close>

definition read_last_etag :: "world \<Rightarrow> sys_state \<Rightarrow> string option" where
  "read_last_etag w st =
     (case w_tempdir w of
        None \<Rightarrow> None
      | Some tempdir \<Rightarrow> map_option strip (files st (etag_path tempdir)))"

text \<open>
  The cached payload, tried only when \<^verbatim>\<open>cur_etag == last_etag\<close>. Without a
  temporary directory the path variable is unbound, and the \<^verbatim>\<open>NameError\<close> is
  swallowed like a failed read.
\<close>

definition read_cached :: "world \<Rightarrow> sys_state \<Rightarrow> string option \<Rightarrow> string option \<Rightarrow> string option" where
  "read_cached w st cur_etag last_etag =
     (if cur_etag = last_etag then
        (case w_tempdir w of
           None \<Rightarrow> None
         | Some tempdir \<Rightarrow> files st (bs_gz_path tempdir))
      else None)"

text \<open>
  The two writes after a download. Opening a path that is not writable raises; the token
  file is opened, and so emptied, before \<^verbatim>\<open>cur_etag.encode\<close> is evaluated, which
  raises \<^verbatim>\<open>AttributeError\<close> when the remote sent no token.
\<close>

definition write_cache :: "world \<Rightarrow> string option \<Rightarrow> string \<Rightarrow> sys_state \<Rightarrow> unit result \<times> sys_state" where
  "write_cache w cur_etag json_bs_gz st =
     (case w_tempdir w of
        None \<Rightarrow> (Inr (), st)
      | Some tempdir \<Rightarrow>
         if \<not> w_writable w (etag_path tempdir) then (Inl (LibraryError ''OSError''), st)
         else
           (case cur_etag of
              None \<Rightarrow> (Inl AttributeError, st\<lparr>files := (files st)(etag_path tempdir \<mapsto> [])\<rparr>)
            | Some tok \<Rightarrow>
               let st1 = st\<lparr>files := (files st)(etag_path tempdir \<mapsto> tok)\<rparr> in
               if \<not> w_writable w (bs_gz_path tempdir) then (Inl (LibraryError ''OSError''), st1)
               else (Inr (), st1\<lparr>files := (files st1)(bs_gz_path tempdir \<mapsto> json_bs_gz)\<rparr>)))"

text \<open>\<^verbatim>\<open>get_nixos\<close>\<close>

definition get_nixos :: "world \<Rightarrow> release_arg \<Rightarrow> sys_state \<Rightarrow> semver result \<times> sys_state" where
  "get_nixos w source st =
     (if source \<noteq> ArgStr ROLLING then (Inl AssertionError, st)
      else
        let last_etag = read_last_etag w st in
        (case urlopen w NIXOS_URL st of
           (Inl e, st1) \<Rightarrow> (Inl e, st1)
         | (Inr req, st1) \<Rightarrow>
            let cur_etag = r_etag req in
            (case read_cached w st1 cur_etag last_etag of
               Some json_bs_gz \<Rightarrow> (nixos_version w json_bs_gz, st1)
             | None \<Rightarrow>
                (case read_body NIXOS_URL req st1 of
                   (Inl e, st2) \<Rightarrow> (Inl e, st2)
                 | (Inr json_bs_gz, st2) \<Rightarrow>
                    (case write_cache w cur_etag json_bs_gz st2 of
                       (Inl e, st3) \<Rightarrow> (Inl e, st3)
                     | (Inr u, st3) \<Rightarrow> (nixos_version w json_bs_gz, st3))))))"

subsection \<open>The source definition table\<close>

text \<open>
  An entry of \<^verbatim>\<open>DISTROS\<close> is a dictionary (a scrape rule), a string (the name of
  another entry) or a function of the release argument.
\<close>

datatype defin =
    ScrapeRule pydict
  | Alias string
  | CustomResolver "release_arg \<Rightarrow> sys_state \<Rightarrow> semver result \<times> sys_state"

type_synonym table = "string \<rightharpoonup> defin"

text \<open>\<^verbatim>\<open>d[k]\<close> on a dictionary\<close>

definition dict_get :: "pydict \<Rightarrow> string \<Rightarrow> string result" where
  "dict_get d k = (case d k of None \<Rightarrow> Inl KeyError | Some v \<Rightarrow> Inr v)"

subsection \<open>The generic scraper\<close>

text \<open>
  The loop \<^verbatim>\<open>while 'inherit' in defin\<close>. The parent entry is copied and updated with
  the fields of the child other than \<^verbatim>\<open>inherit\<close>; a missing parent is a
  \<^verbatim>\<open>KeyError\<close>, a parent that is a string or a function has no \<^verbatim>\<open>copy\<close>. The
  loop has no counter; \<open>None\<close> is the run that never leaves it.
\<close>

partial_function (option) inherit_loop :: "table \<Rightarrow> pydict \<Rightarrow> pydict result option" where
  "inherit_loop tbl defin =
     (case defin ''inherit'' of
        None \<Rightarrow> Some (Inr defin)
      | Some inherit \<Rightarrow>
         (case tbl inherit of
            None \<Rightarrow> Some (Inl KeyError)
          | Some (ScrapeRule parent) \<Rightarrow>
              inherit_loop tbl
                (parent ++ (defin |` (- {''inherit''})))
          | Some (Alias a) \<Rightarrow> Some (Inl AttributeError)
          | Some (CustomResolver f) \<Rightarrow> Some (Inl AttributeError)))"

text \<open>
  Where the chain of \<^verbatim>\<open>inherit\<close> links leads when followed for at most \<open>n\<close>
  links, starting from the \<^verbatim>\<open>inherit\<close> field of a rule: \<open>None\<close> when it has not
  ended by then, \<open>Some None\<close> when it reaches a rule without the field, and
  \<open>Some (Some e)\<close> when a link names no entry or an entry that is no rule.
\<close>

fun chain_end :: "nat \<Rightarrow> table \<Rightarrow> string option \<Rightarrow> exn option option" where
  "chain_end n tbl None = Some None"
| "chain_end 0 tbl (Some inherit) = None"
| "chain_end (Suc n) tbl (Some inherit) =
     (case tbl inherit of
        None \<Rightarrow> Some (Some KeyError)
      | Some (ScrapeRule parent) \<Rightarrow> chain_end n tbl (parent ''inherit'')
      | Some (Alias a) \<Rightarrow> Some (Some AttributeError)
      | Some (CustomResolver f) \<Rightarrow> Some (Some AttributeError))"

text \<open>
  The value that the rules along the chain give to a field \<open>k\<close>: that of the first
  rule, within \<open>n\<close> links, that defines it.
\<close>

fun chain_lookup :: "nat \<Rightarrow> table \<Rightarrow> string option \<Rightarrow> string \<Rightarrow> string option" where
  "chain_lookup n tbl None k = None"
| "chain_lookup 0 tbl (Some inherit) k = None"
| "chain_lookup (Suc n) tbl (Some inherit) k =
     (case tbl inherit of
        None \<Rightarrow> None
      | Some (ScrapeRule parent) \<Rightarrow>
          (case parent k of
             Some v \<Rightarrow> Some v
           | None \<Rightarrow> chain_lookup n tbl (parent ''inherit'') k)
      | Some (Alias a) \<Rightarrow> None
      | Some (CustomResolver f) \<Rightarrow> None)"

text \<open>
  The entry reached from the entry \<open>name\<close> after exactly \<open>m\<close> links, each from
  a rule to the entry its \<^verbatim>\<open>inherit\<close> field names. The links form a cycle through
  \<open>name\<close> when some positive number of links leads from \<open>name\<close> back to it.
\<close>

fun follow :: "nat \<Rightarrow> table \<Rightarrow> string \<Rightarrow> string option" where
  "follow 0 tbl name = Some name"
| "follow (Suc m) tbl name =
     (case tbl name of
        None \<Rightarrow> None
      | Some (ScrapeRule rule) \<Rightarrow>
          (case rule ''inherit'' of
             None \<Rightarrow> None
           | Some next \<Rightarrow> follow m tbl next)
      | Some (Alias a) \<Rightarrow> None
      | Some (CustomResolver f) \<Rightarrow> None)"

text \<open>The first lines of \<^verbatim>\<open>get_scrape\<close>: the release argument as template fields.\<close>

definition source_fields :: "release_arg \<Rightarrow> pydict result" where
  "source_fields source =
     (case source of
        ArgNone \<Rightarrow> Inr Map.empty
      | ArgStr s \<Rightarrow> Inr [''release'' \<mapsto> s]
      | ArgDict d \<Rightarrow> Inr d
      | ArgOther \<Rightarrow> Inl PlainException)"

text \<open>
  Lines 465 to 471: the templates are filled, the pattern compiled, the page fetched and
  the first result of the path query stringified. The result is the pattern and the
  text.
\<close>

definition scrape_text ::
  "world \<Rightarrow> pydict \<Rightarrow> pydict \<Rightarrow> sys_state \<Rightarrow> (string \<times> string) result \<times> sys_state" where
  "scrape_text w defin source st =
     (case dict_get defin ''url'' of Inl e \<Rightarrow> (Inl e, st) | Inr url_template \<Rightarrow>
     (case w_format w url_template source of Inl e \<Rightarrow> (Inl e, st) | Inr url \<Rightarrow>
     (case dict_get defin ''xpath'' of Inl e \<Rightarrow> (Inl e, st) | Inr xpath_template \<Rightarrow>
     (case w_format w xpath_template source of Inl e \<Rightarrow> (Inl e, st) | Inr xpath \<Rightarrow>
     (case dict_get defin ''re'' of Inl e \<Rightarrow> (Inl e, st) | Inr pattern \<Rightarrow>
       if \<not> w_re_compile_ok w pattern then (Inl (LibraryError ''re.error''), st) else
     (case urlopen w url st of (Inl e, st1) \<Rightarrow> (Inl e, st1) | (Inr req, st1) \<Rightarrow>
     (case read_body url req st1 of (Inl e, st2) \<Rightarrow> (Inl e, st2) | (Inr doc, st2) \<Rightarrow>
     (case w_xpath w doc xpath of
        Inl e \<Rightarrow> (Inl e, st2)
      | Inr [] \<Rightarrow> (Inl IndexError, st2)
      | Inr (res # _) \<Rightarrow> (Inr (pattern, res), st2)))))))))"

text \<open>
  Lines 472 to 476: the version string chosen from the result of \<^verbatim>\<open>regex.search\<close>.
  Both a failed search and a \<^verbatim>\<open>version\<close> group that is empty or took no part give
  \<^verbatim>\<open>0.0.0\<close>.
\<close>

definition match_version :: "re_match option \<Rightarrow> string result" where
  "match_version m =
     (case m of
        Some groups \<Rightarrow>
          (case groups ''version'' of
             None \<Rightarrow> Inl IndexError
           | Some None \<Rightarrow> Inr ''0.0.0''
           | Some (Some g) \<Rightarrow> Inr (if g = [] then ''0.0.0'' else g))
      | None \<Rightarrow> Inr ''0.0.0'')"

text \<open>\<^verbatim>\<open>get_scrape\<close>; the table is the global \<^verbatim>\<open>DISTROS\<close>.\<close>

definition get_scrape ::
  "world \<Rightarrow> table \<Rightarrow> string \<Rightarrow> pydict \<Rightarrow> release_arg \<Rightarrow> sys_state
     \<Rightarrow> (semver result \<times> sys_state) option" where
  "get_scrape w tbl distro defin source st =
     (case source_fields source of
        Inl e \<Rightarrow> Some (Inl e, st)
      | Inr source' \<Rightarrow>
         (case inherit_loop tbl defin of
            None \<Rightarrow> None
          | Some (Inl e) \<Rightarrow> Some (Inl e, st)
          | Some (Inr defin') \<Rightarrow>
             (case scrape_text w defin' source' st of
                (Inl e, st') \<Rightarrow> Some (Inl e, st')
              | (Inr (pattern, text), st') \<Rightarrow>
                 (case match_version (w_re_search w pattern text) of
                    Inl e \<Rightarrow> Some (Inl e, st')
                  | Inr version \<Rightarrow> Some (parse_semver version, st')))))"

subsection \<open>The dispatch engine\<close>

text \<open>
  \<^verbatim>\<open>get_dispatch\<close>. The first argument is the number of nested calls the interpreter
  still allows: a call beyond it raises \<^verbatim>\<open>RecursionError\<close>, inside the
  \<^verbatim>\<open>try\<close> of the caller. The table lookup stands before the \<^verbatim>\<open>try\<close>; the bare
  \<^verbatim>\<open>except\<close> returns \<^verbatim>\<open>parse_semver('0.0.0')\<close> for every exception of the
  body.
\<close>

fun get_dispatch ::
  "nat \<Rightarrow> world \<Rightarrow> table \<Rightarrow> string \<Rightarrow> release_arg \<Rightarrow> sys_state
     \<Rightarrow> (semver result \<times> sys_state) option" where
  "get_dispatch 0 w tbl distro arg st = Some (Inl RecursionError, st)"
| "get_dispatch (Suc depth) w tbl distro arg st =
     (case tbl distro of
        None \<Rightarrow> Some (Inl KeyError, st)
      | Some defin \<Rightarrow>
         (case (case defin of
                  CustomResolver f \<Rightarrow> Some (f arg st)
                | Alias target \<Rightarrow> get_dispatch depth w tbl target arg st
                | ScrapeRule d \<Rightarrow> get_scrape w tbl distro d arg st)
          of None \<Rightarrow> None
           | Some (Inr v, st') \<Rightarrow> Some (Inr v, st')
           | Some (Inl e, st') \<Rightarrow> Some (parse_semver ''0.0.0'', st')))"

text \<open>The body of the \<^verbatim>\<open>try\<close>, for an entry already looked up.\<close>

definition dispatch_body ::
  "nat \<Rightarrow> world \<Rightarrow> table \<Rightarrow> string \<Rightarrow> defin \<Rightarrow> release_arg \<Rightarrow> sys_state
     \<Rightarrow> (semver result \<times> sys_state) option" where
  "dispatch_body depth w tbl distro defin arg st =
     (case defin of
        CustomResolver f \<Rightarrow> Some (f arg st)
      | Alias target \<Rightarrow> get_dispatch depth w tbl target arg st
      | ScrapeRule d \<Rightarrow> get_scrape w tbl distro d arg st)"

subsection \<open>The table of the program\<close>

text \<open>The pattern pieces \<^verbatim>\<open>\d+\<close> and \<^verbatim>\<open>\d+[.]\d+[.]\d+\<close>.\<close>

definition re_d :: string where
  "re_d = CHR 0x5C # ''d+''"

definition re_d3 :: string where
  "re_d3 = re_d @ ''[.]'' @ re_d @ ''[.]'' @ re_d"

text \<open>The pattern of the Debian rule.\<close>

definition debian_re :: string where
  "debian_re = ''rustc [(](?P<version>'' @ re_d3 @ '')''"

definition DISTROS :: "world \<Rightarrow> table" where
  "DISTROS w = map_of
     [(''arch'', ScrapeRule
        [''url'' \<mapsto> ''https://www.archlinux.org/packages/community/x86_64/rust/'',
         ''xpath'' \<mapsto> ''//h2/text()'',
         ''re'' \<mapsto> ''rust '' @ re_d @ '':(?P<version>'' @ re_d3 @ '')'']),
      (''debian'', ScrapeRule
        [''url'' \<mapsto> ''https://packages.debian.org/{release}/rustc'',
         ''xpath'' \<mapsto> ''//h1/text()'',
         ''re'' \<mapsto> debian_re]),
      (''debian-testing'', Alias ''debian''),
      (''debian-unstable'', Alias ''debian''),
      (''fedora'', CustomResolver (w_get_fedora w)),
      (''fedora-latest'', Alias ''fedora''),
      (''freebsd'', CustomResolver (w_get_freebsd w)),
      (''freebsd-latest'', Alias ''freebsd''),
      (''nixos'', CustomResolver (get_nixos w)),
      (''openbsd'', CustomResolver (w_get_openbsd w)),
      (''openbsd-latest'', Alias ''openbsd''),
      (''opensuse'', ScrapeRule
        [''url'' \<mapsto> ''https://build.opensuse.org/package/view_file/openSUSE:Leap:{release}/rust/rust.spec?expand=1'',
         ''xpath'' \<mapsto> ''//pre/text()'',
         ''re'' \<mapsto> ''Version:'' @ CHR 0x5C # ''s+(?P<version>'' @ re_d3 @ '')'']),
      (''ubuntu'', ScrapeRule
        [''url'' \<mapsto> ''http://packages.ubuntu.com/{release}/rustc'',
         ''inherit'' \<mapsto> ''debian'']),
      (''ubuntu-latest'', Alias ''ubuntu'')]"

subsection \<open>Test doubles\<close>

text \<open>
  A world without network, where every fetch fails, and a world whose Nix index answers
  with a given token and body; in the second the payload is its own package name, so
  that no decompression is simulated. Before the first run there are no files and no
  requests.
\<close>

text \<open>
  \<^verbatim>\<open>template.format(**kwargs)\<close> as it acts on a template whose braces enclose plain
  field names, such as \<^verbatim>\<open>{release}\<close>: each field is replaced by the value of its
  name, and a name without a value is a \<^verbatim>\<open>KeyError\<close>. The second argument of the
  scan is the field name read so far, inside braces.
\<close>

fun format_scan :: "string \<Rightarrow> string option \<Rightarrow> pydict \<Rightarrow> string result" where
  "format_scan [] None kwargs = Inr []"
| "format_scan [] (Some name) kwargs = Inl ValueError"
| "format_scan (c # cs) None kwargs =
     (if c = CHR ''{'' then format_scan cs (Some []) kwargs
      else if c = CHR ''}'' then Inl ValueError
      else (case format_scan cs None kwargs of Inl e \<Rightarrow> Inl e | Inr r \<Rightarrow> Inr (c # r)))"
| "format_scan (c # cs) (Some name) kwargs =
     (if c = CHR ''}'' then
        (case kwargs name of
           None \<Rightarrow> Inl KeyError
         | Some v \<Rightarrow>
            (case format_scan cs None kwargs of Inl e \<Rightarrow> Inl e | Inr r \<Rightarrow> Inr (v @ r)))
      else format_scan cs (Some (name @ [c])) kwargs)"

definition format_fields :: "string \<Rightarrow> pydict \<Rightarrow> string result" where
  "format_fields template kwargs = format_scan template None kwargs"

text \<open>
  What \<^verbatim>\<open>search\<close> does with the pattern of the Debian rule,
  \<^verbatim>\<open>rustc [(](?P<version>\d+[.]\d+[.]\d+)\<close>: the match is at the leftmost place where
  \<^verbatim>\<open>rustc (\<close> is followed by three dot-separated digit runs, and the group
  \<^verbatim>\<open>version\<close> holds the runs; there is no match when there is no such place.
\<close>

definition debian_match_here :: "string \<Rightarrow> re_match option" where
  "debian_match_here s =
     (if take 7 s = ''rustc ('' then
        (case RE_VER_match (drop 7 s) of
           None \<Rightarrow> None
         | Some (ma, mi, re) \<Rightarrow> Some [''version'' \<mapsto> Some (ma @ ''.'' @ mi @ ''.'' @ re)])
      else None)"

fun debian_search :: "string \<Rightarrow> re_match option" where
  "debian_search [] = None"
| "debian_search (c # cs) =
     (case debian_match_here (c # cs) of Some m \<Rightarrow> Some m | None \<Rightarrow> debian_search cs)"

definition offline_world :: world where
  "offline_world =
     \<lparr>w_tempdir = Some ''/tmp'',
      w_writable = (\<lambda>p. True),
      w_urlopen = (\<lambda>url. Inl (LibraryError ''URLError'')),
      w_format = format_fields,
      w_xpath = (\<lambda>doc path. Inr []),
      w_re_compile_ok = (\<lambda>pattern. True),
      w_re_search = (\<lambda>pattern text. None),
      w_nix_rustc_name = (\<lambda>bs. Inl (LibraryError ''OSError'')),
      w_get_fedora = (\<lambda>source st. (Inl (LibraryError ''URLError''), st)),
      w_get_freebsd = (\<lambda>source st. (Inl (LibraryError ''URLError''), st)),
      w_get_openbsd = (\<lambda>source st. (Inl (LibraryError ''URLError''), st))\<rparr>"

definition nix_world :: "string option \<Rightarrow> string \<Rightarrow> world" where
  "nix_world tok body =
     offline_world
       \<lparr>w_urlopen :=
          (\<lambda>url. if url = NIXOS_URL then Inr \<lparr>r_etag = tok, r_body = Inr body\<rparr>
                 else Inl (LibraryError ''URLError'')),
        w_nix_rustc_name := (\<lambda>bs. Inr bs)\<rparr>"

definition fresh_state :: sys_state where
  "fresh_state = \<lparr>files = Map.empty, net_log = []\<rparr>"

text \<open>
  Two states of the cache: a token \<^verbatim>\<open>abc\<close> stored with its payload, and the same
  token stored without a payload file.
\<close>

definition abc_cache :: sys_state where
  "abc_cache = \<lparr>files = [etag_path ''/tmp'' \<mapsto> ''abc'', bs_gz_path ''/tmp'' \<mapsto> ''rustc-1.16.0''],
                  net_log = []\<rparr>"



text \<open>
  A world where every address serves the document \<^verbatim>\<open><h1>\<close>\<open>heading\<close>\<^verbatim>\<open></h1>\<close>,
  for a heading of plain text. The path query \<^verbatim>\<open>//h1/text()\<close> on that document
  gives the heading. \<^verbatim>\<open>search\<close> answers as the library does for the two patterns
  used with this world: the Debian pattern, and the pattern \<^verbatim>\<open>(?P<version>)\<close> of
  an empty group, which matches every text at its start with the empty string in the
  group. No other pattern is searched in this world.
\<close>

definition h1_document :: "string \<Rightarrow> string" where
  "h1_document heading = ''<h1>'' @ heading @ ''</h1>''"

definition page_world :: "string \<Rightarrow> world" where
  "page_world heading =
     offline_world
       \<lparr>w_urlopen := (\<lambda>url. Inr \<lparr>r_etag = None, r_body = Inr (h1_document heading)\<rparr>),
        w_xpath := (\<lambda>doc path. if doc = h1_document heading \<and> path = ''//h1/text()''
                     then Inr [heading] else Inr []),
        w_re_search := (\<lambda>pattern t. if pattern = debian_re then debian_search t
                     else if pattern = ''(?P<version>)'' then Some [''version'' \<mapsto> Some []]
                     else None)\<rparr>"

text \<open>A table with one rule whose pattern is the empty group.\<close>

definition probe_rule :: pydict where
  "probe_rule =
     [''url'' \<mapsto> ''http://example.org/{release}'',
      ''xpath'' \<mapsto> ''//h1/text()'',
      ''re'' \<mapsto> ''(?P<version>)'']"

definition probe_table :: table where
  "probe_table = map_of [(''probe'', ScrapeRule probe_rule)]"

text \<open>A table with one rule that inherits from itself.\<close>

definition cyclic_rule :: pydict where
  "cyclic_rule = [''url'' \<mapsto> ''http://example.org/'', ''inherit'' \<mapsto> ''a'']"

definition cyclic_table :: table where
  "cyclic_table = map_of [(''a'', ScrapeRule cyclic_rule)]"

text \<open>A table of two rules that inherit from each other.\<close>

definition rule_a :: pydict where
  "rule_a = [''url'' \<mapsto> ''http://example.org/a'', ''inherit'' \<mapsto> ''b'']"

definition rule_b :: pydict where
  "rule_b = [''xpath'' \<mapsto> ''//h1/text()'', ''inherit'' \<mapsto> ''a'']"

definition two_cycle_table :: table where
  "two_cycle_table = map_of [(''a'', ScrapeRule rule_a), (''b'', ScrapeRule rule_b)]"

text \<open>The rules of Debian and Ubuntu in the table.\<close>

definition debian_rule :: pydict where
  "debian_rule =
     [''url'' \<mapsto> ''https://packages.debian.org/{release}/rustc'',
      ''xpath'' \<mapsto> ''//h1/text()'',
      ''re'' \<mapsto> debian_re]"

definition ubuntu_rule :: pydict where
  "ubuntu_rule =
     [''url'' \<mapsto> ''http://packages.ubuntu.com/{release}/rustc'',
      ''inherit'' \<mapsto> ''debian'']"

text \<open>
  Two headings of the Debian package site, one of a page for a package and one of the
  page for a release without the package, and the address fetched for the release
  \<^verbatim>\<open>jessie\<close>.
\<close>

definition package_heading :: string where
  "package_heading = ''Package: rustc (1.14.0+dfsg1-3)''"

definition error_heading :: string where
  "error_heading = ''Error''"

definition debian_url :: string where
  "debian_url = ''https://packages.debian.org/jessie/rustc''"

section \<open>Auxiliary facts\<close>

subsection \<open>Facts about decimal numerals\<close>

lemma is_digit_digit_char: "d < 10 \<Longrightarrow> is_digit (digit_char d)"
  by (simp add: is_digit_def digit_char_def)

lemma digit_val_digit_char: "d < 10 \<Longrightarrow> digit_val (digit_char d) = d"
  by (simp add: digit_val_def digit_char_def)

lemma digits_all_digit: "list_all is_digit (digits n)"
proof (induction n rule: digits.induct)
  case (1 n)
  show ?case
  proof (cases "n < 10")
    case True
    then show ?thesis by (simp add: digits.simps [of n] is_digit_digit_char)
  next
    case False
    with 1 show ?thesis by (simp add: digits.simps [of n] is_digit_digit_char)
  qed
qed

lemma digits_nonempty: "digits n \<noteq> []"
  by (subst digits.simps) simp

lemma hd_digits_is_digit: "is_digit (hd (digits n))"
  using digits_all_digit [of n] digits_nonempty [of n]
  by (cases "digits n") simp_all

lemma digits_val_append:
  "list_all is_digit xs \<Longrightarrow> digits_val a (xs @ ys) = digits_val (dec a xs) ys"
  by (induction xs arbitrary: a) (simp_all add: dec_def)

lemma digits_val_all_digit: "list_all is_digit xs \<Longrightarrow> digits_val a xs = Some (dec a xs)"
  using digits_val_append [of xs a "[]"] by simp

lemma dec_digits: "dec 0 (digits n) = n"
proof (induction n rule: digits.induct)
  case (1 n)
  show ?case
  proof (cases "n < 10")
    case True
    then show ?thesis by (simp add: digits.simps [of n] dec_def digit_val_digit_char)
  next
    case False
    with 1 have "dec 0 (digits (n div 10)) = n div 10" by simp
    with False show ?thesis
      by (simp add: digits.simps [of n] dec_def digit_val_digit_char)
  qed
qed

lemma py_nat_all_digit:
  assumes "s \<noteq> []" and "list_all is_digit s"
  shows "py_nat s = Some (dec 0 s)"
proof -
  obtain c cs where cs: "s = c # cs" using assms(1) by (cases s) auto
  have "is_digit c" using assms(2) cs by simp
  moreover have "digits_val 0 s = Some (dec 0 s)"
    by (rule digits_val_all_digit [OF assms(2)])
  ultimately show ?thesis unfolding py_nat_def cs by simp
qed

lemma not_int_space_digit: "is_digit c \<Longrightarrow> \<not> is_int_space c"
  by (auto simp: is_digit_def is_int_space_def Let_def)

lemma int_strip_no_space:
  "s \<noteq> [] \<Longrightarrow> \<not> is_int_space (hd s) \<Longrightarrow> \<not> is_int_space (last s) \<Longrightarrow> int_strip s = s"
proof -
  assume a: "s \<noteq> []" "\<not> is_int_space (hd s)" "\<not> is_int_space (last s)"
  have 1: "dropWhile is_int_space s = s" using a by (cases s) simp_all
  have "rev s \<noteq> []" "\<not> is_int_space (hd (rev s))" using a by (simp_all add: hd_rev)
  then have 2: "dropWhile is_int_space (rev s) = rev s" by (cases "rev s") simp_all
  show ?thesis by (simp add: int_strip_def 1 2)
qed

lemma int_strip_all_digit: "s \<noteq> [] \<Longrightarrow> list_all is_digit s \<Longrightarrow> int_strip s = s"
proof (rule int_strip_no_space)
  assume a: "s \<noteq> []" "list_all is_digit s"
  show "s \<noteq> []" by fact
  have "is_digit (hd s)" using a by (cases s) simp_all
  then show "\<not> is_int_space (hd s)" by (rule not_int_space_digit)
  have "last s \<in> set s" using a by simp
  then have "is_digit (last s)" using a by (simp add: list_all_iff)
  then show "\<not> is_int_space (last s)" by (rule not_int_space_digit)
qed

lemma digit_not_sign: "is_digit c \<Longrightarrow> c \<noteq> CHR ''-'' \<and> c \<noteq> CHR ''+'' \<and> c \<noteq> CHR ''.''"
  by (auto simp: is_digit_def)

lemma py_int_all_digit:
  assumes "s \<noteq> []" and "list_all is_digit s"
  shows "py_int s = Some (int (dec 0 s))"
proof -
  obtain c cs where cs: "s = c # cs" using assms(1) by (cases s) auto
  have d: "is_digit c" using assms(2) cs by simp
  have st: "int_strip s = s" by (rule int_strip_all_digit [OF assms])
  have "py_nat (c # cs) = Some (dec 0 s)" using py_nat_all_digit [OF assms] cs by simp
  then show ?thesis using digit_not_sign [OF d] st cs by (simp add: py_int_def)
qed

lemma py_int_digits: "py_int (digits n) = Some (int n)"
  using py_int_all_digit [OF digits_nonempty digits_all_digit, of n] by (simp add: dec_digits)

lemma takeWhile_digits: "\<not> is_digit c \<Longrightarrow> takeWhile is_digit (digits n @ c # r) = digits n"
  using digits_all_digit [of n] by (simp add: list_all_iff)

lemma dropWhile_digits: "\<not> is_digit c \<Longrightarrow> dropWhile is_digit (digits n @ c # r) = c # r"
  using digits_all_digit [of n] by (simp add: list_all_iff)

lemma takeWhile_digits_end: "takeWhile is_digit (digits n) = digits n"
  using digits_all_digit [of n] by (simp add: list_all_iff)

lemma dot_not_digit: "\<not> is_digit CHR ''.''"
  by (simp add: is_digit_def)

lemma RE_VER_match_digits:
  "RE_VER_match (digits a @ CHR ''.'' # digits b @ CHR ''.'' # digits c)
     = Some (digits a, digits b, digits c)"
  by (simp add: RE_VER_match_def Let_def takeWhile_digits dropWhile_digits
      takeWhile_digits_end dot_not_digit digits_nonempty)

lemma parse_semver_digits:
  "parse_semver (digits a @ CHR ''.'' # digits b @ CHR ''.'' # digits c)
     = Inr (int a, int b, int c)"
  by (simp add: parse_semver_def RE_VER_match_digits py_int_digits)

subsection \<open>Facts about the date normalizer\<close>

lemma str_split_no_sep: "sep \<notin> set s \<Longrightarrow> str_split sep s = [s]"
  by (induction s) auto

lemma str_split_append:
  "sep \<notin> set a \<Longrightarrow> str_split sep (a @ sep # b) = a # str_split sep b"
  by (induction a) auto

lemma dash_not_digit: "\<not> is_digit CHR ''-''"
  by (simp add: is_digit_def)

lemma all_digit_no_dash: "list_all is_digit s \<Longrightarrow> CHR ''-'' \<notin> set s"
  using dash_not_digit by (auto simp: list_all_iff)

lemma length_digits: "0 < k \<Longrightarrow> n < 10 ^ k \<Longrightarrow> length (digits n) \<le> k"
proof (induction n arbitrary: k rule: digits.induct)
  case (1 n)
  show ?case
  proof (cases "n < 10")
    case True
    with 1(2) show ?thesis by (simp add: digits.simps [of n])
  next
    case False
    obtain j where k: "k = Suc j" using 1(2) by (cases k) auto
    have "j \<noteq> 0" using False 1(3) k by (cases j) auto
    moreover have "n div 10 < 10 ^ j" using 1(3) k by (simp add: less_mult_imp_div_less)
    ultimately have "length (digits (n div 10)) \<le> j" using 1(1) [OF False, of j] by simp
    then show ?thesis using False k by (simp add: digits.simps [of n])
  qed
qed

lemma zero_is_digit: "is_digit CHR ''0''"
  by (simp add: is_digit_def)

lemma fmt_0d_shape:
  assumes "0 \<le> i" and "i < 10 ^ w" and "0 < w"
  shows "length (fmt_0d w i) = w \<and> list_all is_digit (fmt_0d w i)"
proof -
  have "nat i < 10 ^ w" using assms(1,2) by (simp add: nat_less_iff)
  then have "length (digits (nat i)) \<le> w" using length_digits [OF assms(3)] by simp
  then show ?thesis using assms(1) digits_all_digit [of "nat i"]
    by (auto simp: fmt_0d_def zero_pad_def list_all_iff zero_is_digit)
qed

lemma digit_char_numerals:
  "digit_char 0 = CHR ''0''" "digit_char 1 = CHR ''1''" "digit_char 2 = CHR ''2''"
  "digit_char 3 = CHR ''3''" "digit_char 4 = CHR ''4''" "digit_char 5 = CHR ''5''"
  "digit_char 6 = CHR ''6''" "digit_char 7 = CHR ''7''" "digit_char 8 = CHR ''8''"
  "digit_char 9 = CHR ''9''" "digit_char (Suc 0) = CHR ''1''"
  by (simp_all add: digit_char_def char_of_def bit_0)

lemma py_int_01: "py_int ''01'' = Some 1"
  by (simp add: py_int_def int_strip_def is_int_space_def py_nat_def is_digit_def digit_val_def)

lemma fmt_0d_2_1: "fmt_0d 2 1 = ''01''"
  by (simp add: fmt_0d_def zero_pad_def digits.simps digit_char_numerals)

lemma is_iso_date_fmt:
  assumes "1 \<le> y" "y \<le> 9999" "1 \<le> m" "m \<le> 12" "1 \<le> d" "d \<le> 31"
  shows "is_iso_date (fmt_date (y, m, d))"
proof -
  have y: "length (fmt_0d 4 y) = 4 \<and> list_all is_digit (fmt_0d 4 y)"
    using assms by (intro fmt_0d_shape) simp_all
  have m: "length (fmt_0d 2 m) = 2 \<and> list_all is_digit (fmt_0d 2 m)"
    using assms by (intro fmt_0d_shape) simp_all
  have d: "length (fmt_0d 2 d) = 2 \<and> list_all is_digit (fmt_0d 2 d)"
    using assms by (intro fmt_0d_shape) simp_all
  show ?thesis using y m d
    by (simp add: is_iso_date_def nth_append)
qed

lemma datetime_date_day_one:
  assumes "0 \<le> y" and "0 \<le> m"
  shows "datetime_date y m 1 =
           (if 2 ^ 31 \<le> y \<or> 2 ^ 31 \<le> m then Inl OverflowError
            else if y < 1 \<or> 9999 < y \<or> m < 1 \<or> 12 < m then Inl ValueError
            else Inr (y, m, 1))"
  using assms by (auto simp: datetime_date_def c_int_ok_def days_in_month_def)

lemma dec_13: "dec 0 ''13'' = 13" by (simp add: dec_def digit_val_def)
lemma dec_2147483648: "dec 0 ''2147483648'' = 2147483648" by (simp add: dec_def digit_val_def)

lemma parse_date_2017_4_9: "parse_date today (Some ''2017-4-9'') = Inr ''2017-04-09''"
  by (simp add: parse_date_def py_int_def int_strip_def is_int_space_def py_nat_def is_digit_def
      digit_val_def datetime_date_def c_int_ok_def days_in_month_def fmt_0d_def zero_pad_def
      digits.simps digit_char_numerals)

lemma dec_2017: "dec 0 ''2017'' = 2017" by (simp add: dec_def digit_val_def)
lemma dec_04: "dec 0 ''04'' = 4" by (simp add: dec_def digit_val_def)

subsection \<open>Facts about formatting and sorting\<close>

lemma split_at_dot:
  "CHR ''.'' \<notin> set a \<Longrightarrow> CHR ''.'' \<notin> set a' \<Longrightarrow> a @ CHR ''.'' # r = a' @ CHR ''.'' # r'
     \<Longrightarrow> a = a' \<and> r = r'"
proof (induction a arbitrary: a')
  case Nil
  then show ?case by (cases a') auto
next
  case (Cons x a)
  then show ?case by (cases a') auto
qed

lemma fmt_d_no_dot: "CHR ''.'' \<notin> set (fmt_d i)"
  using digits_all_digit dot_not_digit by (auto simp: fmt_d_def list_all_iff)

lemma digits_0: "digits 0 = ''0''"
  by (simp add: digits.simps digit_char_numerals)

lemma fmt_d_0: "fmt_d 0 = ''0''"
  by (simp add: fmt_d_def digits_0)

lemma fmt_d_eq_0: "fmt_d i = ''0'' \<Longrightarrow> i = 0"
proof (cases "i < 0")
  case True
  assume "fmt_d i = ''0''"
  with True show ?thesis by (simp add: fmt_d_def)
next
  case False
  assume "fmt_d i = ''0''"
  with False have "digits (nat i) = ''0''" by (simp add: fmt_d_def)
  then have "dec 0 (digits (nat i)) = dec 0 ''0''" by simp
  moreover have "dec 0 ''0'' = 0" by (simp add: dec_def digit_val_def)
  ultimately have "nat i = 0" by (simp only: dec_digits)
  with False show ?thesis by simp
qed

lemma fmt_ver_sentinel: "fmt_ver v = ''0.0.0'' \<longleftrightarrow> v = sentinel"
proof
  assume a: "fmt_ver v = ''0.0.0''"
  obtain ma mi re where v: "v = (ma, mi, re)" by (cases v) auto
  have e: "fmt_d ma @ CHR ''.'' # (fmt_d mi @ CHR ''.'' # fmt_d re) = ''0'' @ CHR ''.'' # (''0'' @ CHR ''.'' # ''0'')"
    using a v by simp
  have 1: "fmt_d ma = ''0'' \<and> fmt_d mi @ CHR ''.'' # fmt_d re = ''0'' @ CHR ''.'' # ''0''"
    by (rule split_at_dot [OF fmt_d_no_dot _ e]) simp
  then have 2: "fmt_d mi = ''0'' \<and> fmt_d re = ''0''"
    by (intro split_at_dot [OF fmt_d_no_dot]) simp_all
  show "v = sentinel" using 1 2 v by (simp add: sentinel_def fmt_d_eq_0)
next
  assume "v = sentinel"
  then show "fmt_ver v = ''0.0.0''" by (simp add: sentinel_def fmt_d_0)
qed

lemma sorted_map_coarser:
  "sorted (map f xs) \<Longrightarrow> (\<And>x y. f x \<le> f y \<Longrightarrow> g x \<le> g y) \<Longrightarrow> sorted (map g xs)"
  by (induction xs) auto

lemma sorted_snd_sorted_pkg_vers: "sorted (map snd (sorted_pkg_vers xs))"
proof -
  have "sorted (map (\<lambda>(d, v). (v, d)) (sorted_pkg_vers xs))"
    unfolding sorted_pkg_vers_def by (rule sorted_sort_key)
  then show ?thesis
    by (rule sorted_map_coarser) (auto simp: less_eq_prod_def)
qed

lemma set_sorted_pkg_vers: "set (sorted_pkg_vers xs) = set xs"
  by (simp add: sorted_pkg_vers_def)

lemma filter_fmt_ver:
  "filter (\<lambda>v. v \<noteq> ''0.0.0'') (map snd (map (\<lambda>(d, v). (d, fmt_ver v)) ys))
     = map fmt_ver (filter (\<lambda>v. v \<noteq> sentinel) (map snd ys))"
  by (induction ys) (auto simp: fmt_ver_sentinel simp del: fmt_ver.simps)

lemma hd_sorted_Min: "sorted xs \<Longrightarrow> xs \<noteq> [] \<Longrightarrow> hd xs = Min (set xs)"
  by (cases xs) (auto simp: Min_insert2 intro!: Min_eqI [symmetric])

lemma headline_fmt_pkg_vers:
  "headline (fmt_pkg_vers xs) =
     (if \<forall>(d, v) \<in> set xs. v = sentinel then ''unknown''
      else fmt_ver (Min {v \<in> snd ` set xs. v \<noteq> sentinel}))"
proof -
  let ?vs = "filter (\<lambda>v. v \<noteq> sentinel) (map snd (sorted_pkg_vers xs))"
  have h: "headline (fmt_pkg_vers xs) = hd (map fmt_ver ?vs @ [''unknown''])"
    by (simp only: headline_def fmt_pkg_vers_def filter_fmt_ver)
  have s: "set ?vs = {v \<in> snd ` set xs. v \<noteq> sentinel}"
    by (auto simp: set_sorted_pkg_vers)
  have srt: "sorted ?vs" using sorted_snd_sorted_pkg_vers [of xs] by (rule sorted_wrt_filter)
  show ?thesis
  proof (cases "\<forall>(d, v) \<in> set xs. v = sentinel")
    case True
    then have "set ?vs = {}" unfolding s by auto
    then have "?vs = []" by (simp only: set_empty)
    with True h show ?thesis by simp
  next
    case False
    then obtain d v where "(d, v) \<in> set xs" "v \<noteq> sentinel" by auto
    then have "v \<in> {v \<in> snd ` set xs. v \<noteq> sentinel}" by force
    then have "set ?vs \<noteq> {}" unfolding s by blast
    then have ne: "?vs \<noteq> []" by (metis list.set(1))
    then have "hd (map fmt_ver ?vs @ [''unknown'']) = fmt_ver (hd ?vs)"
      by (simp add: hd_append hd_map)
    also have "hd ?vs = Min (set ?vs)" by (rule hd_sorted_Min [OF srt ne])
    finally have "headline (fmt_pkg_vers xs) = fmt_ver (Min {v \<in> snd ` set xs. v \<noteq> sentinel})"
      using h s by simp
    then show ?thesis using False by (simp only: if_False)
  qed
qed

subsection \<open>Facts about the compressed-index resolver\<close>










subsection \<open>Facts about the inherit loop\<close>

lemma cyclic_step: "cyclic_rule ++ (cyclic_rule |` (- {''inherit''})) = cyclic_rule"
  by (rule ext) (simp add: cyclic_rule_def map_add_def restrict_map_def)

lemma cyclic_rule_inherit: "cyclic_rule ''inherit'' = Some ''a''"
  by (simp add: cyclic_rule_def)

lemma cyclic_table_a: "cyclic_table ''a'' = Some (ScrapeRule cyclic_rule)"
  by (simp add: cyclic_table_def)

lemma inherit_loop_cyclic_invariant:
  "inherit_loop tbl d = Some y \<Longrightarrow> \<not> (tbl = cyclic_table \<and> d = cyclic_rule)"
proof (erule inherit_loop.raw_induct [rotated], rule notI, elim conjE)
  fix loop :: "table \<Rightarrow> pydict \<Rightarrow> pydict result option" and tbl d y
  assume IH: "\<And>tbl d y. loop tbl d = Some y \<Longrightarrow> \<not> (tbl = cyclic_table \<and> d = cyclic_rule)"
    and eq: "tbl = cyclic_table" "d = cyclic_rule"
    and step: "(case d ''inherit'' of None \<Rightarrow> Some (Inr d)
        | Some inherit \<Rightarrow>
            (case tbl inherit of None \<Rightarrow> Some (Inl KeyError)
             | Some (ScrapeRule parent) \<Rightarrow> loop tbl (parent ++ (d |` (- {''inherit''})))
             | Some (Alias a) \<Rightarrow> Some (Inl AttributeError)
             | Some (CustomResolver f) \<Rightarrow> Some (Inl AttributeError))) = Some y"
  have "loop cyclic_table cyclic_rule = Some y"
    using step by (simp add: eq cyclic_rule_inherit cyclic_table_a cyclic_step)
  then show False using IH by blast
qed

lemma inherit_loop_cyclic_not_Some: "inherit_loop cyclic_table cyclic_rule = Some y \<Longrightarrow> False"
  using inherit_loop_cyclic_invariant by blast

lemma inherit_loop_cyclic: "inherit_loop cyclic_table cyclic_rule = None"
  using inherit_loop_cyclic_not_Some by (cases "inherit_loop cyclic_table cyclic_rule") auto

lemma inherit_step_inherit: "(parent ++ (d |` (- {''inherit''}))) ''inherit'' = parent ''inherit''"
  by (simp add: map_add_def restrict_map_def)

lemma inherit_step_field:
  "k \<noteq> ''inherit'' \<Longrightarrow>
     (parent ++ (d |` (- {''inherit''}))) k = (case d k of Some v \<Rightarrow> Some v | None \<Rightarrow> parent k)"
  by (simp add: map_add_def restrict_map_def split: option.splits)

lemma inherit_loop_chain_merge:
  "chain_end n tbl (d ''inherit'') = Some None \<Longrightarrow>
     \<exists>d'. inherit_loop tbl d = Some (Inr d') \<and> d' ''inherit'' = None
        \<and> (\<forall>k. k \<noteq> ''inherit'' \<longrightarrow>
              d' k = (case d k of Some v \<Rightarrow> Some v
                      | None \<Rightarrow> chain_lookup n tbl (d ''inherit'') k))"
proof (induction n arbitrary: d)
  case 0
  then have i: "d ''inherit'' = None" by (cases "d ''inherit''") simp_all
  have "inherit_loop tbl d = Some (Inr d)" using i by (subst inherit_loop.simps) simp
  moreover have "\<forall>k. k \<noteq> ''inherit'' \<longrightarrow>
      d k = (case d k of Some v \<Rightarrow> Some v | None \<Rightarrow> chain_lookup 0 tbl (d ''inherit'') k)"
    by (simp add: i split: option.splits)
  ultimately show ?case using i by (intro exI [of _ d] conjI)
next
  case (Suc n)
  show ?case
  proof (cases "d ''inherit''")
    case None
    have "inherit_loop tbl d = Some (Inr d)" using None by (subst inherit_loop.simps) simp
    moreover have "\<forall>k. k \<noteq> ''inherit'' \<longrightarrow>
        d k = (case d k of Some v \<Rightarrow> Some v | None \<Rightarrow> chain_lookup (Suc n) tbl (d ''inherit'') k)"
      by (simp add: None split: option.splits)
    ultimately show ?thesis using None by (intro exI [of _ d] conjI)
  next
    case (Some i)
    with Suc.prems obtain parent where p: "tbl i = Some (ScrapeRule parent)"
      and c: "chain_end n tbl (parent ''inherit'') = Some None"
      by (auto split: option.splits defin.splits)
    let ?d1 = "parent ++ (d |` (- {''inherit''}))"
    have "chain_end n tbl (?d1 ''inherit'') = Some None" using c by (simp only: inherit_step_inherit)
    from Suc.IH [of ?d1, OF this] obtain d' where d': "inherit_loop tbl ?d1 = Some (Inr d')"
      "d' ''inherit'' = None"
      "\<forall>k. k \<noteq> ''inherit'' \<longrightarrow>
          d' k = (case ?d1 k of Some v \<Rightarrow> Some v | None \<Rightarrow> chain_lookup n tbl (?d1 ''inherit'') k)"
      by (elim exE conjE)
    have 1: "inherit_loop tbl d = Some (Inr d')"
      by (subst inherit_loop.simps) (simp add: Some p d'(1))
    have 2: "d' k = (case d k of Some v \<Rightarrow> Some v
                      | None \<Rightarrow> chain_lookup (Suc n) tbl (d ''inherit'') k)"
      if k: "k \<noteq> ''inherit''" for k
    proof -
      have "d' k = (case ?d1 k of Some v \<Rightarrow> Some v
          | None \<Rightarrow> chain_lookup n tbl (?d1 ''inherit'') k)"
        by (rule d'(3) [rule_format, OF k])
      also have "\<dots> = (case d k of Some v \<Rightarrow> Some v
          | None \<Rightarrow> (case parent k of Some v \<Rightarrow> Some v
              | None \<Rightarrow> chain_lookup n tbl (parent ''inherit'') k))"
        by (simp only: inherit_step_field [OF k] inherit_step_inherit) (simp split: option.splits)
      also have "\<dots> = (case d k of Some v \<Rightarrow> Some v
                      | None \<Rightarrow> chain_lookup (Suc n) tbl (d ''inherit'') k)"
        by (simp add: Some p split: option.splits)
      finally show ?thesis .
    qed
    show ?thesis using 1 d'(2) 2 by (intro exI [of _ d'] conjI allI impI)
  qed
qed


lemma inherit_loop_chain_error:
  "chain_end n tbl (d ''inherit'') = Some (Some e) \<Longrightarrow> inherit_loop tbl d = Some (Inl e)"
proof (induction n arbitrary: d)
  case 0
  then show ?case by (cases "d ''inherit''") simp_all
next
  case (Suc n)
  show ?case
  proof (cases "d ''inherit''")
    case None
    with Suc.prems show ?thesis by simp
  next
    case (Some i)
    show ?thesis
    proof (cases "tbl i")
      case None
      with Some Suc.prems show ?thesis by (subst inherit_loop.simps) simp
    next
      case (Some a)
      note t = this
      show ?thesis
      proof (cases a)
        case (ScrapeRule parent)
        let ?d1 = "parent ++ (d |` (- {''inherit''}))"
        have "chain_end n tbl (?d1 ''inherit'') = Some (Some e)"
          using Suc.prems \<open>d ''inherit'' = Some i\<close> t ScrapeRule by (simp add: inherit_step_inherit)
        from Suc.IH [of ?d1, OF this] show ?thesis
          by (subst inherit_loop.simps) (simp add: \<open>d ''inherit'' = Some i\<close> t ScrapeRule)
      next
        case (Alias x)
        with Suc.prems \<open>d ''inherit'' = Some i\<close> t show ?thesis
          by (subst inherit_loop.simps) simp
      next
        case (CustomResolver f)
        with Suc.prems \<open>d ''inherit'' = Some i\<close> t show ?thesis
          by (subst inherit_loop.simps) simp
      qed
    qed
  qed
qed

lemma DISTROS_debian: "DISTROS w ''debian'' = Some (ScrapeRule debian_rule)"
  by (simp add: DISTROS_def debian_rule_def debian_re_def)

lemma DISTROS_ubuntu: "DISTROS w ''ubuntu'' = Some (ScrapeRule ubuntu_rule)"
  by (simp add: DISTROS_def ubuntu_rule_def)

lemma debian_rule_inherit: "debian_rule ''inherit'' = None"
  by (simp add: debian_rule_def)

lemma ubuntu_rule_inherit: "ubuntu_rule ''inherit'' = Some ''debian''"
  by (simp add: ubuntu_rule_def)

lemma chain_end_ubuntu: "chain_end 1 (DISTROS w) (ubuntu_rule ''inherit'') = Some None"
  by (simp add: ubuntu_rule_inherit DISTROS_debian debian_rule_inherit)

lemma follow_add:
  "follow (a + b) tbl i = (case follow a tbl i of None \<Rightarrow> None | Some j \<Rightarrow> follow b tbl j)"
  by (induction a arbitrary: i) (simp_all split: option.splits defin.splits)

lemma follow_cycle_mult: "follow m tbl i = Some i \<Longrightarrow> follow (k * m) tbl i = Some i"
  by (induction k) (simp_all add: follow_add)

lemma follow_None_mono: "follow b tbl i = None \<Longrightarrow> follow (b + c) tbl i = None"
  by (simp add: follow_add)

lemma chain_end_follow: "chain_end n tbl (Some i) \<noteq> None \<Longrightarrow> follow (Suc n) tbl i = None"
proof (induction n arbitrary: i)
  case 0
  then show ?case by simp
next
  case (Suc n)
  show ?case
  proof (cases "tbl i")
    case None
    then show ?thesis by simp
  next
    case (Some a)
    show ?thesis
    proof (cases a)
      case (ScrapeRule p)
      show ?thesis
      proof (cases "p ''inherit''")
        case None
        then show ?thesis using Some ScrapeRule by simp
      next
        case (Some j)
        have "chain_end n tbl (Some j) \<noteq> None"
          using Suc.prems \<open>tbl i = Some a\<close> ScrapeRule Some by simp
        then have "follow (Suc n) tbl j = None" by (rule Suc.IH)
        then show ?thesis using \<open>tbl i = Some a\<close> ScrapeRule Some by simp
      qed
    next
      case (Alias x)
      then show ?thesis using Some by simp
    next
      case (CustomResolver f)
      then show ?thesis using Some by simp
    qed
  qed
qed

lemma cycle_chain_never_ends:
  assumes "follow a tbl i0 = Some i" and "0 < m" and "follow m tbl i = Some i"
  shows "chain_end n tbl (Some i0) = None"
proof (rule ccontr)
  assume "chain_end n tbl (Some i0) \<noteq> None"
  then have f: "follow (Suc n) tbl i0 = None" by (rule chain_end_follow)
  have "Suc n \<le> a + Suc n * m" using assms(2) by (cases m) simp_all
  then obtain c where c: "a + Suc n * m = Suc n + c" by (auto simp only: le_iff_add)
  have "follow (Suc n + c) tbl i0 = None" using f by (rule follow_None_mono)
  then have "follow (a + Suc n * m) tbl i0 = None" by (simp only: c)
  moreover have "follow (a + Suc n * m) tbl i0 = Some i"
    using assms(1) follow_cycle_mult [OF assms(3), of "Suc n"] by (simp add: follow_add)
  ultimately show False by simp
qed



lemma chain_ends_I: "chain_end n tbl x \<noteq> None \<Longrightarrow> \<exists>n. chain_end n tbl x \<noteq> None"
  by (rule exI)

lemma inherit_loop_Some_chain_ends:
  assumes a: "inherit_loop tbl d = Some y"
  shows "\<exists>n. chain_end n tbl (d ''inherit'') \<noteq> None"
proof (rule inherit_loop.raw_induct
    [where P = "\<lambda>tbl d y. \<exists>n. chain_end n tbl (d ''inherit'') \<noteq> None", OF _ a])
  fix loop :: "table \<Rightarrow> pydict \<Rightarrow> pydict result option" and tbl d y
  assume IH: "\<And>tbl d y. loop tbl d = Some y \<Longrightarrow> \<exists>n. chain_end n tbl (d ''inherit'') \<noteq> None"
    and step: "(case d ''inherit'' of None \<Rightarrow> Some (Inr d)
        | Some inherit \<Rightarrow>
            (case tbl inherit of None \<Rightarrow> Some (Inl KeyError)
             | Some (ScrapeRule parent) \<Rightarrow> loop tbl (parent ++ (d |` (- {''inherit''})))
             | Some (Alias a) \<Rightarrow> Some (Inl AttributeError)
             | Some (CustomResolver f) \<Rightarrow> Some (Inl AttributeError))) = Some y"
  show "\<exists>n. chain_end n tbl (d ''inherit'') \<noteq> None"
  proof (cases "d ''inherit''")
    case None
    then have "chain_end 0 tbl (d ''inherit'') \<noteq> None" by simp
    then show ?thesis by (rule chain_ends_I)
  next
    case (Some i)
    show ?thesis
    proof (cases "tbl i")
      case None
      then have "chain_end (Suc 0) tbl (d ''inherit'') \<noteq> None" using Some by simp
      then show ?thesis by (rule chain_ends_I)
    next
      case (Some a)
      note t = this
      show ?thesis
      proof (cases a)
        case (ScrapeRule parent)
        have "loop tbl (parent ++ (d |` (- {''inherit''}))) = Some y"
          using step \<open>d ''inherit'' = Some i\<close> t ScrapeRule by simp
        from IH [OF this]
        have "\<exists>n. chain_end n tbl ((parent ++ (d |` (- {''inherit''}))) ''inherit'') \<noteq> None" .
        then have "\<exists>n. chain_end n tbl (parent ''inherit'') \<noteq> None"
          by (simp only: inherit_step_inherit)
        then obtain n where "chain_end n tbl (parent ''inherit'') \<noteq> None" by (elim exE)
        then have "chain_end (Suc n) tbl (d ''inherit'') \<noteq> None"
          using \<open>d ''inherit'' = Some i\<close> t ScrapeRule by simp
        then show ?thesis by (rule chain_ends_I)
      next
        case (Alias x)
        then have "chain_end (Suc 0) tbl (d ''inherit'') \<noteq> None"
          using \<open>d ''inherit'' = Some i\<close> t by simp
        then show ?thesis by (rule chain_ends_I)
      next
        case (CustomResolver f)
        then have "chain_end (Suc 0) tbl (d ''inherit'') \<noteq> None"
          using \<open>d ''inherit'' = Some i\<close> t by simp
        then show ?thesis by (rule chain_ends_I)
      qed
    qed
  qed
qed

lemma inherit_loop_never_ends:
  assumes "\<forall>n. chain_end n tbl (d ''inherit'') = None"
  shows "inherit_loop tbl d = None"
proof (cases "inherit_loop tbl d")
  case None
  then show ?thesis .
next
  case (Some y)
  from inherit_loop_Some_chain_ends [OF this] assms show ?thesis by simp
qed

lemma inherit_loop_cycle:
  assumes "d ''inherit'' = Some i0" and "follow a tbl i0 = Some i" and "0 < m"
    and "follow m tbl i = Some i"
  shows "inherit_loop tbl d = None"
proof (rule inherit_loop_never_ends, rule allI)
  fix n
  show "chain_end n tbl (d ''inherit'') = None"
    unfolding assms(1) by (rule cycle_chain_never_ends [OF assms(2,3,4)])
qed



lemma two_cycle_facts:
  "rule_a ''inherit'' = Some ''b''" "follow 0 two_cycle_table ''b'' = Some ''b''"
  "follow 2 two_cycle_table ''b'' = Some ''b''"
  by (simp_all add: rule_a_def rule_b_def two_cycle_table_def numeral_2_eq_2)

subsection \<open>Facts about the generic scraper\<close>

lemma parse_semver_sentinel: "parse_semver ''0.0.0'' = Inr sentinel"
  using parse_semver_digits [of 0 0 0] by (simp add: digits_0 sentinel_def)

lemma inherit_loop_no_inherit: "d ''inherit'' = None \<Longrightarrow> inherit_loop tbl d = Some (Inr d)"
  by (subst inherit_loop.simps) simp

lemma match_version_None: "match_version None = Inr ''0.0.0''"
  by (simp add: match_version_def)

lemma match_version_group:
  "groups ''version'' = Some (Some g) \<Longrightarrow> g \<noteq> [] \<Longrightarrow> match_version (Some groups) = Inr g"
  by (simp add: match_version_def)

lemma match_version_empty:
  "groups ''version'' = Some None \<or> groups ''version'' = Some (Some []) \<Longrightarrow>
     match_version (Some groups) = Inr ''0.0.0''"
  by (auto simp: match_version_def)

lemma get_scrape_after_text:
  assumes "source_fields source = Inr src" and "inherit_loop tbl defin = Some (Inr d)"
    and "scrape_text w d src st = (Inr (pattern, text), st')"
    and "match_version (w_re_search w pattern text) = Inr version"
  shows "get_scrape w tbl distro defin source st = Some (parse_semver version, st')"
  using assms by (simp add: get_scrape_def)

lemma format_debian_url:
  "format_fields ''https://packages.debian.org/{release}/rustc'' [''release'' \<mapsto> ''jessie'']
     = Inr debian_url"
  by (simp add: format_fields_def debian_url_def)

lemma format_h1_path: "format_fields ''//h1/text()'' kwargs = Inr ''//h1/text()''"
  by (simp add: format_fields_def)

lemma format_probe_url:
  "format_fields ''http://example.org/{release}'' [''release'' \<mapsto> ''jessie'']
     = Inr ''http://example.org/jessie''"
  by (simp add: format_fields_def)

lemma page_world_fields:
  "w_format (page_world heading) = format_fields"
  "w_re_compile_ok (page_world heading) pattern"
  "w_urlopen (page_world heading) url = Inr \<lparr>r_etag = None, r_body = Inr (h1_document heading)\<rparr>"
  "w_xpath (page_world heading) (h1_document heading) ''//h1/text()'' = Inr [heading]"
  by (simp_all add: page_world_def offline_world_def)

lemma page_world_search:
  "w_re_search (page_world heading) debian_re t = debian_search t"
  "w_re_search (page_world heading) ''(?P<version>)'' t = Some [''version'' \<mapsto> Some []]"
  by (simp_all add: page_world_def debian_re_def)

lemma scrape_text_debian:
  "scrape_text (page_world heading) debian_rule [''release'' \<mapsto> ''jessie''] fresh_state
     = (Inr (debian_re, heading),
        \<lparr>files = Map.empty, net_log = [Opened debian_url, ReadBody debian_url]\<rparr>)"
proof -
  have f: "dict_get debian_rule ''url'' = Inr ''https://packages.debian.org/{release}/rustc''"
    "dict_get debian_rule ''xpath'' = Inr ''//h1/text()''"
    "dict_get debian_rule ''re'' = Inr debian_re"
    by (simp_all add: dict_get_def debian_rule_def)
  show ?thesis
    by (simp add: scrape_text_def f page_world_fields format_debian_url format_h1_path
        urlopen_def read_body_def log_event_def fresh_state_def)
qed

lemma scrape_text_probe:
  "scrape_text (page_world heading) probe_rule [''release'' \<mapsto> ''jessie''] fresh_state
     = (Inr (''(?P<version>)'', heading),
        \<lparr>files = Map.empty,
           net_log = [Opened ''http://example.org/jessie'', ReadBody ''http://example.org/jessie'']\<rparr>)"
proof -
  have f: "dict_get probe_rule ''url'' = Inr ''http://example.org/{release}''"
    "dict_get probe_rule ''xpath'' = Inr ''//h1/text()''"
    "dict_get probe_rule ''re'' = Inr ''(?P<version>)''"
    by (simp_all add: dict_get_def probe_rule_def)
  show ?thesis
    by (simp add: scrape_text_def f page_world_fields format_probe_url format_h1_path
        urlopen_def read_body_def log_event_def fresh_state_def)
qed

lemma probe_rule_inherit: "probe_rule ''inherit'' = None"
  by (simp add: probe_rule_def)

lemma debian_search_package:
  "debian_search package_heading = Some [''version'' \<mapsto> Some ''1.14.0'']"
  by (simp add: package_heading_def debian_match_here_def RE_VER_match_def is_digit_def)

lemma debian_search_error: "debian_search error_heading = None"
  by (simp add: error_heading_def debian_match_here_def)

lemma source_fields_jessie: "source_fields (ArgStr ''jessie'') = Inr [''release'' \<mapsto> ''jessie'']"
  by (simp add: source_fields_def)

lemma parse_semver_1_14_0: "parse_semver ''1.14.0'' = Inr (1, 14, 0)"
  using parse_semver_digits [of 1 14 0] by (simp add: digits.simps digit_char_numerals)

subsection \<open>Facts about the dispatch\<close>

lemma get_dispatch_found:
  "tbl distro = Some defin \<Longrightarrow>
     get_dispatch (Suc depth) w tbl distro arg st =
       (case dispatch_body depth w tbl distro defin arg st of
          None \<Rightarrow> None
        | Some (Inr v, st') \<Rightarrow> Some (Inr v, st')
        | Some (Inl e, st') \<Rightarrow> Some (Inr sentinel, st'))"
  by (auto simp: dispatch_body_def parse_semver_sentinel split: option.splits sum.splits prod.splits)

lemma get_dispatch_missing:
  "tbl distro = None \<Longrightarrow> get_dispatch (Suc depth) w tbl distro arg st = Some (Inl KeyError, st)"
  by simp

lemma get_scrape_returns:
  "inherit_loop tbl d \<noteq> None \<Longrightarrow> get_scrape w tbl distro d arg st \<noteq> None"
  by (auto simp: get_scrape_def split: sum.splits option.splits prod.splits)

lemma get_dispatch_returns:
  assumes "\<forall>name d. tbl name = Some (ScrapeRule d) \<longrightarrow> inherit_loop tbl d \<noteq> None"
  shows "get_dispatch depth w tbl distro arg st \<noteq> None"
proof (induction depth arbitrary: distro)
  case 0
  show ?case by simp
next
  case (Suc depth)
  show ?case
  proof (cases "tbl distro")
    case None
    then show ?thesis by simp
  next
    case (Some defin)
    have b: "dispatch_body depth w tbl distro defin arg st \<noteq> None"
    proof (cases defin)
      case (ScrapeRule d)
      then have "inherit_loop tbl d \<noteq> None" using assms Some by blast
      then show ?thesis unfolding dispatch_body_def ScrapeRule
        by (simp add: get_scrape_returns)
    next
      case (Alias target)
      then show ?thesis unfolding dispatch_body_def using Suc.IH [of target] by simp
    next
      case (CustomResolver f)
      then show ?thesis unfolding dispatch_body_def by simp
    qed
    then show ?thesis
      unfolding get_dispatch_found [of tbl distro defin, OF Some]
      by (auto split: option.splits sum.splits prod.splits)
  qed
qed

lemma DISTROS_rules:
  "DISTROS w name = Some (ScrapeRule d) \<Longrightarrow> chain_end 1 (DISTROS w) (d ''inherit'') = Some None"
  by (simp add: DISTROS_def split: if_splits) (auto simp: DISTROS_def)

lemma DISTROS_inherit_ends:
  "\<forall>name d. DISTROS w name = Some (ScrapeRule d) \<longrightarrow> inherit_loop (DISTROS w) d \<noteq> None"
proof (intro allI impI)
  fix name d
  assume "DISTROS w name = Some (ScrapeRule d)"
  then have "chain_end 1 (DISTROS w) (d ''inherit'') = Some None" by (rule DISTROS_rules)
  from inherit_loop_chain_merge [of 1 "DISTROS w" d, OF this] show "inherit_loop (DISTROS w) d \<noteq> None" by auto
qed


lemma DISTROS_nixos: "DISTROS w ''nixos'' = Some (CustomResolver (get_nixos w))"
  by (simp add: DISTROS_def)

lemma DISTROS_gentoo: "DISTROS w ''gentoo'' = None"
  by (simp add: DISTROS_def)

lemma DISTROS_ubuntu_latest: "DISTROS w ''ubuntu-latest'' = Some (Alias ''ubuntu'')"
  by (simp add: DISTROS_def)

lemma scrape_text_offline:
  "scrape_text offline_world debian_rule [''release'' \<mapsto> ''jessie''] fresh_state
     = (Inl (LibraryError ''URLError''), \<lparr>files = Map.empty, net_log = [Opened debian_url]\<rparr>)"
proof -
  have f: "dict_get debian_rule ''url'' = Inr ''https://packages.debian.org/{release}/rustc''"
    "dict_get debian_rule ''xpath'' = Inr ''//h1/text()''"
    "dict_get debian_rule ''re'' = Inr debian_re"
    by (simp_all add: dict_get_def debian_rule_def)
  have w: "w_format offline_world = format_fields" "w_re_compile_ok offline_world pattern"
    "w_urlopen offline_world url = Inl (LibraryError ''URLError'')" for pattern url
    by (simp_all add: offline_world_def)
  show ?thesis
    by (simp add: scrape_text_def f w format_debian_url format_h1_path
        urlopen_def log_event_def fresh_state_def)
qed

lemma get_scrape_offline:
  "get_scrape offline_world (DISTROS offline_world) ''debian'' debian_rule (ArgStr ''jessie'') fresh_state
     = Some (Inl (LibraryError ''URLError''), \<lparr>files = Map.empty, net_log = [Opened debian_url]\<rparr>)"
proof -
  have i: "inherit_loop (DISTROS offline_world) debian_rule = Some (Inr debian_rule)"
    by (rule inherit_loop_no_inherit [of debian_rule, OF debian_rule_inherit])
  show ?thesis
    unfolding get_scrape_def by (simp add: source_fields_jessie i scrape_text_offline)
qed

lemma dispatch_body_nixos_assert:
  "arg \<noteq> ArgStr ROLLING \<Longrightarrow>
     dispatch_body depth w (DISTROS w) ''nixos'' (CustomResolver (get_nixos w)) arg st
       = Some (Inl AssertionError, st)"
  by (simp add: dispatch_body_def get_nixos_def)

section \<open>The claims\<close>

subsection \<open>Round trip of the version normalizer\<close>

text \<open>
  Claim C8. For every SemVer value, a triple of non-negative integers, parsing the
  formatted string gives the triple back: \<^verbatim>\<open>parse_semver(fmt_ver(v)) == v\<close>.
\<close>

theorem parse_semver_fmt_ver:
  assumes "0 \<le> ma" and "0 \<le> mi" and "0 \<le> re"
  shows "parse_semver (fmt_ver (ma, mi, re)) = Inr (ma, mi, re)"
  using assms parse_semver_digits [of "nat ma" "nat mi" "nat re"]
  by (simp add: fmt_d_def)

theorem parse_semver_fmt_ver_witness:
  "(0::int) \<le> 1 \<and> (0::int) \<le> 17 \<and> (0::int) \<le> 0
   \<and> parse_semver (fmt_ver (1, 17, 0)) = Inr (1, 17, 0)"
  using parse_semver_fmt_ver [of 1 17 0] by simp

subsection \<open>The as-of date normalizer\<close>

text \<open>
  Claim C10, as amended. For an input of one or two dash-separated components, each a
  non-empty string of decimal digits: when the year lies in 1..9999 and the month (when
  given) in 1..12, \<^verbatim>\<open>parse_date\<close> fills the missing month and day with 01 and
  returns a zero-padded string of the shape \<^verbatim>\<open>YYYY-MM-DD\<close>; otherwise the
  constructor \<^verbatim>\<open>datetime.date\<close> raises, \<^verbatim>\<open>OverflowError\<close> when the year or the
  month is \<open>2 ^ 31\<close> or more and \<^verbatim>\<open>ValueError\<close> when it is out of range below
  that.
\<close>

theorem parse_date_pads:
  assumes "ys \<noteq> []" and "list_all is_digit ys"
  shows "parse_date today (Some ys) =
           (if 2 ^ 31 \<le> int (dec 0 ys) then Inl OverflowError
            else if int (dec 0 ys) < 1 \<or> 9999 < int (dec 0 ys) then Inl ValueError
            else Inr (fmt_0d 4 (int (dec 0 ys)) @ ''-01-01''))
       \<and> (1 \<le> dec 0 ys \<and> dec 0 ys \<le> 9999 \<longrightarrow>
            is_iso_date (fmt_0d 4 (int (dec 0 ys)) @ ''-01-01''))
       \<and> (ms \<noteq> [] \<and> list_all is_digit ms \<longrightarrow>
            parse_date today (Some (ys @ ''-'' @ ms)) =
              (if 2 ^ 31 \<le> int (dec 0 ys) \<or> 2 ^ 31 \<le> int (dec 0 ms) then Inl OverflowError
               else if int (dec 0 ys) < 1 \<or> 9999 < int (dec 0 ys)
                       \<or> int (dec 0 ms) < 1 \<or> 12 < int (dec 0 ms) then Inl ValueError
               else Inr (fmt_0d 4 (int (dec 0 ys)) @ ''-'' @ fmt_0d 2 (int (dec 0 ms)) @ ''-01''))
            \<and> (1 \<le> dec 0 ys \<and> dec 0 ys \<le> 9999 \<and> 1 \<le> dec 0 ms \<and> dec 0 ms \<le> 12 \<longrightarrow>
                 is_iso_date (fmt_0d 4 (int (dec 0 ys)) @ ''-'' @ fmt_0d 2 (int (dec 0 ms)) @ ''-01'')))"
proof -
  let ?y = "int (dec 0 ys)"
  have sp1: "str_split CHR ''-'' ys = [ys]"
    by (rule str_split_no_sep [OF all_digit_no_dash [OF assms(2)]])
  have iy: "py_int ys = Some ?y" by (rule py_int_all_digit [OF assms(1,2)])
  have d1: "datetime_date ?y 1 1 =
           (if 2 ^ 31 \<le> ?y then Inl OverflowError
            else if ?y < 1 \<or> 9999 < ?y then Inl ValueError
            else Inr (?y, 1, 1))"
    using datetime_date_day_one [of ?y 1] by simp
  have one: "parse_date today (Some ys) =
           (if 2 ^ 31 \<le> ?y then Inl OverflowError
            else if ?y < 1 \<or> 9999 < ?y then Inl ValueError
            else Inr (fmt_0d 4 ?y @ ''-01-01''))"
    by (simp add: parse_date_def sp1 iy py_int_01 d1 fmt_0d_2_1)
  have iso1: "1 \<le> dec 0 ys \<and> dec 0 ys \<le> 9999 \<longrightarrow> is_iso_date (fmt_0d 4 ?y @ ''-01-01'')"
    using is_iso_date_fmt [of ?y 1 1] by (simp add: fmt_0d_2_1)
  have two: "parse_date today (Some (ys @ ''-'' @ ms)) =
              (if 2 ^ 31 \<le> ?y \<or> 2 ^ 31 \<le> int (dec 0 ms) then Inl OverflowError
               else if ?y < 1 \<or> 9999 < ?y \<or> int (dec 0 ms) < 1 \<or> 12 < int (dec 0 ms)
                 then Inl ValueError
               else Inr (fmt_0d 4 ?y @ ''-'' @ fmt_0d 2 (int (dec 0 ms)) @ ''-01''))
            \<and> (1 \<le> dec 0 ys \<and> dec 0 ys \<le> 9999 \<and> 1 \<le> dec 0 ms \<and> dec 0 ms \<le> 12 \<longrightarrow>
                 is_iso_date (fmt_0d 4 ?y @ ''-'' @ fmt_0d 2 (int (dec 0 ms)) @ ''-01''))"
    if ms: "ms \<noteq> [] \<and> list_all is_digit ms"
  proof -
    let ?m = "int (dec 0 ms)"
    have sp2: "str_split CHR ''-'' (ys @ CHR ''-'' # ms) = [ys, ms]"
      using ms by (simp add: str_split_append [OF all_digit_no_dash [OF assms(2)]]
          str_split_no_sep [OF all_digit_no_dash])
    have im: "py_int ms = Some ?m" using ms by (intro py_int_all_digit) simp_all
    have d2: "datetime_date ?y ?m 1 =
           (if 2 ^ 31 \<le> ?y \<or> 2 ^ 31 \<le> ?m then Inl OverflowError
            else if ?y < 1 \<or> 9999 < ?y \<or> ?m < 1 \<or> 12 < ?m then Inl ValueError
            else Inr (?y, ?m, 1))"
      by (rule datetime_date_day_one) simp_all
    have a: "parse_date today (Some (ys @ ''-'' @ ms)) =
              (if 2 ^ 31 \<le> ?y \<or> 2 ^ 31 \<le> ?m then Inl OverflowError
               else if ?y < 1 \<or> 9999 < ?y \<or> ?m < 1 \<or> 12 < ?m then Inl ValueError
               else Inr (fmt_0d 4 ?y @ ''-'' @ fmt_0d 2 ?m @ ''-01''))"
      by (simp add: parse_date_def sp2 iy im py_int_01 d2 fmt_0d_2_1)
    have b: "1 \<le> dec 0 ys \<and> dec 0 ys \<le> 9999 \<and> 1 \<le> dec 0 ms \<and> dec 0 ms \<le> 12 \<longrightarrow>
        is_iso_date (fmt_0d 4 ?y @ ''-'' @ fmt_0d 2 ?m @ ''-01'')"
      using is_iso_date_fmt [of ?y ?m 1] by (simp add: fmt_0d_2_1)
    show ?thesis by (rule conjI [OF a b])
  qed
  show ?thesis by (rule conjI [OF one conjI [OF iso1 impI [OF two]]])
qed

theorem parse_date_pads_witness:
  "''2017'' \<noteq> [] \<and> list_all is_digit ''2017'' \<and> ''04'' \<noteq> [] \<and> list_all is_digit ''04''
   \<and> parse_date (2017, 4, 14) (Some ''2017'') = Inr ''2017-01-01''
   \<and> parse_date (2017, 4, 14) (Some ''2017-04'') = Inr ''2017-04-01''
   \<and> is_iso_date ''2017-04-01''
   \<and> parse_date (2017, 4, 14) (Some ''2017-13'') = Inl ValueError
   \<and> parse_date (2017, 4, 14) (Some ''2147483648'') = Inl OverflowError
   \<and> parse_date (2017, 4, 14) (Some ''2017-4-9'') = Inr ''2017-04-09''"
proof -
  have h: "''2017'' \<noteq> []" "list_all is_digit ''2017''"
    by (simp_all add: is_digit_def)
  have g: "''04'' \<noteq> [] \<and> list_all is_digit ''04''" "''13'' \<noteq> [] \<and> list_all is_digit ''13''"
    by (simp_all add: is_digit_def)
  have b: "''2147483648'' \<noteq> []" "list_all is_digit ''2147483648''"
    by (simp_all add: is_digit_def)
  have f: "fmt_0d 4 2017 = ''2017''" "fmt_0d 2 4 = ''04''"
    by (simp_all add: fmt_0d_def zero_pad_def digits.simps digit_char_numerals)
  show ?thesis
    using parse_date_pads [OF h, of "(2017, 4, 14)" "''04''"]
      parse_date_pads [OF h, of "(2017, 4, 14)" "''13''"]
      parse_date_pads [OF b, of "(2017, 4, 14)" "''04''"] h g
    by (simp add: dec_2017 dec_04 dec_13 dec_2147483648 f parse_date_2017_4_9)
qed

text \<open>
  The input \<^verbatim>\<open>2017-13\<close> has two numeric components and is rejected with a
  \<^verbatim>\<open>ValueError\<close>.
\<close>

theorem parse_date_counterexample:
  "parse_date (2017, 4, 14) (Some ''2017-13'') = Inl ValueError"
  by (simp add: parse_date_def py_int_def int_strip_def is_int_space_def py_nat_def is_digit_def
      digit_val_def datetime_date_def c_int_ok_def)

subsection \<open>The batch sort\<close>

text \<open>
  Claim C6. The collected results are sorted ascending by the key (version, source
  name): the sorted list is ordered by that key and is a permutation of the input, and the
  formatted list of \<^verbatim>\<open>main\<close> is its image. The results b 1.2.0, a 1.2.0, c 0.0.0
  come out as c 0.0.0, a 1.2.0, b 1.2.0.
\<close>

theorem sorted_pkg_vers_ascending:
  "sorted (map (\<lambda>(d, v). (v, d)) (sorted_pkg_vers xs))
   \<and> mset (sorted_pkg_vers xs) = mset xs
   \<and> fmt_pkg_vers xs = map (\<lambda>(d, v). (d, fmt_ver v)) (sorted_pkg_vers xs)
   \<and> fmt_pkg_vers [(''b'', (1, 2, 0)), (''a'', (1, 2, 0)), (''c'', (0, 0, 0))]
       = [(''c'', ''0.0.0''), (''a'', ''1.2.0''), (''b'', ''1.2.0'')]"
proof -
  have 1: "sorted (map (\<lambda>(d, v). (v, d)) (sorted_pkg_vers xs))"
    unfolding sorted_pkg_vers_def by (rule sorted_sort_key)
  have 2: "mset (sorted_pkg_vers xs) = mset xs"
    unfolding sorted_pkg_vers_def by (rule mset_sort)
  have 3: "sorted_pkg_vers [(''b'', (1, 2, 0)), (''a'', (1, 2, 0)), (''c'', (0, 0, 0))]
       = [(''c'', (0, 0, 0)), (''a'', (1, 2, 0)), (''b'', (1, 2, 0))]"
    by (simp add: sorted_pkg_vers_def less_eq_prod_def less_prod_def)
  have 4: "fmt_ver (0, 0, 0) = ''0.0.0''" "fmt_ver (1, 2, 0) = ''1.2.0''"
    by (simp_all add: fmt_d_def digits.simps digit_char_numerals)
  show ?thesis using 1 2 by (simp add: fmt_pkg_vers_def 3 4 del: fmt_ver.simps)
qed


subsection \<open>The headline answer of the default mode\<close>

text \<open>
  Claim C5. In the default mode the answer printed after sorting is the lowest version
  among the results that are not the sentinel \<open>(0, 0, 0)\<close>: sentinel entries are
  filtered out before the first element is taken, and when every entry is the sentinel
  the answer is the string \<^verbatim>\<open>unknown\<close>. For a non-empty batch this is what
  \<^verbatim>\<open>main\<close> prints, with exit code 0.
\<close>

theorem headline_lowest_non_sentinel:
  "headline (fmt_pkg_vers xs) =
     (if \<forall>(d, v) \<in> set xs. v = sentinel then ''unknown''
      else fmt_ver (Min {v \<in> snd ` set xs. v \<noteq> sentinel}))
   \<and> (xs \<noteq> [] \<longrightarrow> main_default xs = (0, headline (fmt_pkg_vers xs)))"
proof -
  have "length (fmt_pkg_vers xs) = length xs"
    by (simp add: fmt_pkg_vers_def sorted_pkg_vers_def)
  then have "fmt_pkg_vers xs = [] \<longleftrightarrow> xs = []"
    by (metis length_0_conv)
  then have "xs \<noteq> [] \<longrightarrow> main_default xs = (0, headline (fmt_pkg_vers xs))"
    by (simp add: main_default_def Let_def)
  then show ?thesis using headline_fmt_pkg_vers [of xs] by blast
qed

theorem headline_lowest_non_sentinel_witness:
  "main_default [(''x'', (0, 0, 0)), (''y'', (1, 10, 0)), (''z'', (1, 2, 3))] = (0, ''1.2.3'')
   \<and> main_default [(''x'', (0, 0, 0))] = (0, ''unknown'')"
proof -
  have s: "{v \<in> snd ` set [(''x'', (0, 0, 0)), (''y'', (1, 10, 0)), (''z'', (1, 2, 3))]. v \<noteq> sentinel}
      = {(1, 10, 0), (1, 2, 3)}"
    by (auto simp: sentinel_def)
  have m: "Min {(1, 10, 0), (1, 2, 3 :: int)} = (1 :: int, 2 :: int, 3 :: int)"
    by (simp add: min_def less_eq_prod_def)
  have f: "fmt_ver (1, 2, 3) = ''1.2.3''"
    by (simp add: fmt_d_def digits.simps digit_char_numerals)
  have n: "\<not> (\<forall>(d, v) \<in> set [(''x'', (0, 0, 0)), (''y'', (1, 10, 0)), (''z'', (1, 2, 3))]. v = sentinel)"
    by (simp add: sentinel_def)
  have a: "\<forall>(d, v) \<in> set [(''x'', (0, 0, 0))]. v = sentinel"
    by (simp add: sentinel_def)
  show ?thesis
    using headline_lowest_non_sentinel [of "[(''x'', (0, 0, 0)), (''y'', (1, 10, 0)), (''z'', (1, 2, 3))]"]
      headline_lowest_non_sentinel [of "[(''x'', (0, 0, 0))]"] n a
    by (simp only: s m f) simp
qed

subsection \<open>The precondition of the compressed-index resolver\<close>





subsection \<open>The conditional fetch of the compressed-index resolver\<close>





subsection \<open>The inherit chain of the generic scraper\<close>

text \<open>
  Claim C4, as amended. The walk follows the \<^verbatim>\<open>inherit\<close> links and has no cap.
  When the chain of links ends after \<open>n\<close> links at a rule without
  \<^verbatim>\<open>inherit\<close>, the loop ends with a rule that has no \<^verbatim>\<open>inherit\<close> field and in
  which every other field has the value of the first rule along the chain that defines
  it, the child before its parent, the parent before its own parent. When the chain
  ends at a missing entry or at an entry that is no rule, the loop raises. When the
  chain never ends, the loop does not end; this is so whenever the links lead into a
  cycle.
\<close>

theorem inherit_loop_ends_with_chain:
  "(chain_end n tbl (d ''inherit'') = Some None \<longrightarrow>
      (\<exists>d'. inherit_loop tbl d = Some (Inr d') \<and> d' ''inherit'' = None
         \<and> (\<forall>k. k \<noteq> ''inherit'' \<longrightarrow>
               d' k = (case d k of Some v \<Rightarrow> Some v
                       | None \<Rightarrow> chain_lookup n tbl (d ''inherit'') k))))
   \<and> (chain_end n tbl (d ''inherit'') = Some (Some e) \<longrightarrow> inherit_loop tbl d = Some (Inl e))
   \<and> ((\<forall>n. chain_end n tbl (d ''inherit'') = None) \<longrightarrow> inherit_loop tbl d = None)
   \<and> (d ''inherit'' = Some i0 \<and> follow a tbl i0 = Some i \<and> 0 < m \<and> follow m tbl i = Some i
        \<longrightarrow> inherit_loop tbl d = None)"
proof (intro conjI impI)
  assume "chain_end n tbl (d ''inherit'') = Some None"
  then show "\<exists>d'. inherit_loop tbl d = Some (Inr d') \<and> d' ''inherit'' = None
         \<and> (\<forall>k. k \<noteq> ''inherit'' \<longrightarrow>
               d' k = (case d k of Some v \<Rightarrow> Some v
                       | None \<Rightarrow> chain_lookup n tbl (d ''inherit'') k))"
    by (rule inherit_loop_chain_merge)
next
  assume "chain_end n tbl (d ''inherit'') = Some (Some e)"
  then show "inherit_loop tbl d = Some (Inl e)" by (rule inherit_loop_chain_error)
next
  assume "\<forall>n. chain_end n tbl (d ''inherit'') = None"
  then show "inherit_loop tbl d = None" by (rule inherit_loop_never_ends)
next
  assume c: "d ''inherit'' = Some i0 \<and> follow a tbl i0 = Some i \<and> 0 < m \<and> follow m tbl i = Some i"
  show "inherit_loop tbl d = None"
    by (rule inherit_loop_cycle [where d = d and tbl = tbl and ?i0.0 = i0 and a = a and i = i and m = m,
          OF c [THEN conjunct1] c [THEN conjunct2, THEN conjunct1]
          c [THEN conjunct2, THEN conjunct2, THEN conjunct1]
          c [THEN conjunct2, THEN conjunct2, THEN conjunct2]])
qed

theorem inherit_loop_ends_with_chain_witness:
  "(\<exists>d'. inherit_loop (DISTROS offline_world) ubuntu_rule = Some (Inr d')
      \<and> d' ''inherit'' = None
      \<and> d' ''url'' = Some ''http://packages.ubuntu.com/{release}/rustc''
      \<and> d' ''xpath'' = Some ''//h1/text()''
      \<and> d' ''re'' = Some debian_re)
   \<and> inherit_loop two_cycle_table rule_a = None"
proof -
  let ?tbl = "DISTROS offline_world"
  have "\<exists>d'. inherit_loop ?tbl ubuntu_rule = Some (Inr d') \<and> d' ''inherit'' = None
         \<and> (\<forall>k. k \<noteq> ''inherit'' \<longrightarrow>
               d' k = (case ubuntu_rule k of Some v \<Rightarrow> Some v
                       | None \<Rightarrow> chain_lookup 1 ?tbl (ubuntu_rule ''inherit'') k))"
    by (rule inherit_loop_ends_with_chain [of 1 ?tbl ubuntu_rule KeyError "''a''" 0 "''a''" 1,
          THEN conjunct1, THEN mp, OF chain_end_ubuntu])
  then obtain d' where d': "inherit_loop ?tbl ubuntu_rule = Some (Inr d')"
    "d' ''inherit'' = None"
    "\<forall>k. k \<noteq> ''inherit'' \<longrightarrow>
               d' k = (case ubuntu_rule k of Some v \<Rightarrow> Some v
                       | None \<Rightarrow> chain_lookup 1 ?tbl (ubuntu_rule ''inherit'') k)"
    by (elim exE conjE)
  have f: "d' k = (case ubuntu_rule k of Some v \<Rightarrow> Some v
                       | None \<Rightarrow> (case debian_rule k of Some v \<Rightarrow> Some v | None \<Rightarrow> None))"
    if "k \<noteq> ''inherit''" for k
    using d'(3) [rule_format, OF that]
    by (simp add: ubuntu_rule_inherit DISTROS_debian debian_rule_inherit split: option.splits)
  have u: "d' ''url'' = Some ''http://packages.ubuntu.com/{release}/rustc''"
    using f [of "''url''"] by (simp add: ubuntu_rule_def)
  have x: "d' ''xpath'' = Some ''//h1/text()''"
    using f [of "''xpath''"] by (simp add: ubuntu_rule_def debian_rule_def)
  have r: "d' ''re'' = Some debian_re"
    using f [of "''re''"] by (simp add: ubuntu_rule_def debian_rule_def)
  have 1: "\<exists>d'. inherit_loop ?tbl ubuntu_rule = Some (Inr d')
      \<and> d' ''inherit'' = None
      \<and> d' ''url'' = Some ''http://packages.ubuntu.com/{release}/rustc''
      \<and> d' ''xpath'' = Some ''//h1/text()''
      \<and> d' ''re'' = Some debian_re"
    using d'(1,2) u x r by (intro exI [of _ d'] conjI)
  have c: "rule_a ''inherit'' = Some ''b'' \<and> follow 0 two_cycle_table ''b'' = Some ''b''
      \<and> (0::nat) < 2 \<and> follow 2 two_cycle_table ''b'' = Some ''b''"
    by (simp add: two_cycle_facts)
  have 2: "inherit_loop two_cycle_table rule_a = None"
    by (rule inherit_loop_ends_with_chain [of 0 two_cycle_table rule_a KeyError "''b''" 0 "''b''" 2,
          THEN conjunct2, THEN conjunct2, THEN conjunct2, THEN mp, OF c])
  show ?thesis by (rule conjI [OF 1 2])
qed

text \<open>
  A rule that inherits from itself: the loop never ends, and neither does the scraper.
\<close>

theorem inherit_loop_counterexample:
  "inherit_loop cyclic_table cyclic_rule = None
   \<and> get_scrape offline_world cyclic_table ''a'' cyclic_rule ArgNone fresh_state = None"
  by (simp add: inherit_loop_cyclic get_scrape_def source_fields_def)

subsection \<open>The version chosen by the generic scraper\<close>

text \<open>
  Claim C2, as amended. Once the text has been extracted: when the pattern does not
  match, the scraper falls back to the string \<^verbatim>\<open>0.0.0\<close> and returns the sentinel;
  when it matches, the named group \<^verbatim>\<open>version\<close> is taken and parsed, and a group
  that is empty or took no part in the match falls back to \<^verbatim>\<open>0.0.0\<close> as well.
\<close>

theorem get_scrape_version_fallback:
  assumes "source_fields source = Inr src" and "inherit_loop tbl defin = Some (Inr d)"
    and "scrape_text w d src st = (Inr (pattern, text), st')"
  shows "(w_re_search w pattern text = None \<longrightarrow>
            get_scrape w tbl distro defin source st = Some (Inr sentinel, st'))
       \<and> (w_re_search w pattern text = Some groups \<and> groups ''version'' = Some (Some g) \<and> g \<noteq> []
            \<longrightarrow> get_scrape w tbl distro defin source st = Some (parse_semver g, st'))
       \<and> (w_re_search w pattern text = Some groups
            \<and> (groups ''version'' = Some None \<or> groups ''version'' = Some (Some []))
            \<longrightarrow> get_scrape w tbl distro defin source st = Some (Inr sentinel, st'))"
proof (intro conjI impI)
  assume "w_re_search w pattern text = None"
  then have "match_version (w_re_search w pattern text) = Inr ''0.0.0''"
    by (simp only: match_version_None)
  from get_scrape_after_text [OF assms this]
  show "get_scrape w tbl distro defin source st = Some (Inr sentinel, st')"
    by (simp only: parse_semver_sentinel)
next
  assume a: "w_re_search w pattern text = Some groups \<and> groups ''version'' = Some (Some g) \<and> g \<noteq> []"
  then have "match_version (w_re_search w pattern text) = Inr g"
    using match_version_group [of groups g] by simp
  from get_scrape_after_text [OF assms this]
  show "get_scrape w tbl distro defin source st = Some (parse_semver g, st')" .
next
  assume a: "w_re_search w pattern text = Some groups
    \<and> (groups ''version'' = Some None \<or> groups ''version'' = Some (Some []))"
  then have "match_version (w_re_search w pattern text) = Inr ''0.0.0''"
    using match_version_empty [of groups] by simp
  from get_scrape_after_text [OF assms this]
  show "get_scrape w tbl distro defin source st = Some (Inr sentinel, st')"
    by (simp only: parse_semver_sentinel)
qed

theorem get_scrape_version_fallback_witness:
  "get_scrape (page_world package_heading) (DISTROS (page_world package_heading)) ''debian''
       debian_rule (ArgStr ''jessie'') fresh_state
     = Some (Inr (1, 14, 0),
         \<lparr>files = Map.empty, net_log = [Opened debian_url, ReadBody debian_url]\<rparr>)
   \<and> get_scrape (page_world package_heading) probe_table ''probe'' probe_rule (ArgStr ''jessie'')
       fresh_state
     = Some (Inr (0, 0, 0),
         \<lparr>files = Map.empty,
            net_log = [Opened ''http://example.org/jessie'', ReadBody ''http://example.org/jessie'']\<rparr>)"
proof -
  let ?w = "page_world package_heading"
  have i: "inherit_loop (DISTROS ?w) debian_rule = Some (Inr debian_rule)"
    by (rule inherit_loop_no_inherit [of debian_rule, OF debian_rule_inherit])
  have j: "inherit_loop probe_table probe_rule = Some (Inr probe_rule)"
    by (rule inherit_loop_no_inherit [of probe_rule, OF probe_rule_inherit])
  have 1: "get_scrape ?w (DISTROS ?w) ''debian'' debian_rule (ArgStr ''jessie'') fresh_state
      = Some (parse_semver ''1.14.0'',
          \<lparr>files = Map.empty, net_log = [Opened debian_url, ReadBody debian_url]\<rparr>)"
    by (rule get_scrape_version_fallback [OF source_fields_jessie i scrape_text_debian,
          where groups = "[''version'' \<mapsto> Some ''1.14.0'']" and g = "''1.14.0''",
          THEN conjunct2, THEN conjunct1, THEN mp])
       (simp add: page_world_search debian_search_package)
  have 2: "get_scrape ?w probe_table ''probe'' probe_rule (ArgStr ''jessie'') fresh_state
      = Some (Inr sentinel,
          \<lparr>files = Map.empty,
             net_log = [Opened ''http://example.org/jessie'', ReadBody ''http://example.org/jessie'']\<rparr>)"
    by (rule get_scrape_version_fallback [OF source_fields_jessie j scrape_text_probe,
          where groups = "[''version'' \<mapsto> Some [] ]",
          THEN conjunct2, THEN conjunct2, THEN mp])
       (simp add: page_world_search)
  show ?thesis by (simp only: 1 2 parse_semver_1_14_0 sentinel_def)
qed

text \<open>
  The Debian rule on the page of a release without the package, whose heading the
  pattern does not match: the search answers \<^verbatim>\<open>None\<close> and the scraper returns
  \<open>(0, 0, 0)\<close>, not an exception.
\<close>

theorem get_scrape_version_fallback_counterexample:
  "debian_search error_heading = None
   \<and> get_scrape (page_world error_heading) (DISTROS (page_world error_heading)) ''debian''
       debian_rule (ArgStr ''jessie'') fresh_state
     = Some (Inr (0, 0, 0),
         \<lparr>files = Map.empty, net_log = [Opened debian_url, ReadBody debian_url]\<rparr>)"
proof -
  let ?w = "page_world error_heading"
  have i: "inherit_loop (DISTROS ?w) debian_rule = Some (Inr debian_rule)"
    by (rule inherit_loop_no_inherit [of debian_rule, OF debian_rule_inherit])
  have p: "parse_semver ''0.0.0'' = Inr (0, 0, 0)"
    using parse_semver_sentinel by (simp only: sentinel_def)
  have "get_scrape ?w (DISTROS ?w) ''debian'' debian_rule (ArgStr ''jessie'') fresh_state
     = Some (parse_semver ''0.0.0'',
         \<lparr>files = Map.empty, net_log = [Opened debian_url, ReadBody debian_url]\<rparr>)"
    by (rule get_scrape_after_text [OF source_fields_jessie i scrape_text_debian])
      (simp only: page_world_search debian_search_error match_version_None)
  then show ?thesis by (simp only: p debian_search_error)
qed

subsection \<open>The failure boundary of the dispatch\<close>

text \<open>
  Claim C1, as amended. For every source name that is a key of the table and every
  release argument, \<^verbatim>\<open>get_dispatch\<close> never propagates an exception: whenever the
  body of its \<^verbatim>\<open>try\<close> (custom resolver, alias recursion or generic scrape) raises,
  it returns the sentinel \<open>(0, 0, 0)\<close> with the state the body left; and when every
  inherit chain of the table ends, as in the table of the program, it always returns a
  version.
\<close>

theorem get_dispatch_never_raises:
  assumes "tbl distro = Some defin"
  shows "(\<forall>e s. get_dispatch (Suc depth) w tbl distro arg st \<noteq> Some (Inl e, s))
       \<and> (\<forall>e s. dispatch_body depth w tbl distro defin arg st = Some (Inl e, s) \<longrightarrow>
             get_dispatch (Suc depth) w tbl distro arg st = Some (Inr sentinel, s))
       \<and> ((\<forall>name d. tbl name = Some (ScrapeRule d) \<longrightarrow> inherit_loop tbl d \<noteq> None) \<longrightarrow>
             (\<exists>v s. get_dispatch (Suc depth) w tbl distro arg st = Some (Inr v, s)))"
proof (intro conjI allI impI)
  fix e s
  show "get_dispatch (Suc depth) w tbl distro arg st \<noteq> Some (Inl e, s)"
    unfolding get_dispatch_found [of tbl distro defin, OF assms]
    by (auto split: option.splits sum.splits prod.splits)
next
  fix e s
  assume "dispatch_body depth w tbl distro defin arg st = Some (Inl e, s)"
  then show "get_dispatch (Suc depth) w tbl distro arg st = Some (Inr sentinel, s)"
    unfolding get_dispatch_found [of tbl distro defin, OF assms] by simp
next
  assume "\<forall>name d. tbl name = Some (ScrapeRule d) \<longrightarrow> inherit_loop tbl d \<noteq> None"
  then have "get_dispatch (Suc depth) w tbl distro arg st \<noteq> None"
    by (rule get_dispatch_returns)
  then obtain r s where r: "get_dispatch (Suc depth) w tbl distro arg st = Some (r, s)"
    by (cases "get_dispatch (Suc depth) w tbl distro arg st") auto
  have "\<forall>e. r \<noteq> Inl e"
    using r unfolding get_dispatch_found [of tbl distro defin, OF assms]
    by (auto split: option.splits sum.splits prod.splits)
  then obtain v where "r = Inr v" by (cases r) auto
  with r show "\<exists>v s. get_dispatch (Suc depth) w tbl distro arg st = Some (Inr v, s)" by blast
qed

theorem get_dispatch_never_raises_witness:
  "get_dispatch 1 offline_world (DISTROS offline_world) ''debian'' (ArgStr ''jessie'') fresh_state
     = Some (Inr (0, 0, 0), \<lparr>files = Map.empty, net_log = [Opened debian_url]\<rparr>)
   \<and> (\<exists>v s. get_dispatch 3 offline_world (DISTROS offline_world) ''ubuntu-latest''
          (ArgStr ''zesty'') fresh_state = Some (Inr v, s))"
proof -
  let ?tbl = "DISTROS offline_world"
  have b: "dispatch_body 0 offline_world ?tbl ''debian'' (ScrapeRule debian_rule) (ArgStr ''jessie'') fresh_state
      = Some (Inl (LibraryError ''URLError''), \<lparr>files = Map.empty, net_log = [Opened debian_url]\<rparr>)"
    unfolding dispatch_body_def by (simp only: defin.case get_scrape_offline)
  have 1: "get_dispatch (Suc 0) offline_world ?tbl ''debian'' (ArgStr ''jessie'') fresh_state
      = Some (Inr sentinel, \<lparr>files = Map.empty, net_log = [Opened debian_url]\<rparr>)"
    by (rule get_dispatch_never_raises [of ?tbl "''debian''" "ScrapeRule debian_rule", OF DISTROS_debian,
          THEN conjunct2, THEN conjunct1, rule_format, OF b])
  have 2: "\<exists>v s. get_dispatch (Suc 2) offline_world ?tbl ''ubuntu-latest'' (ArgStr ''zesty'') fresh_state
      = Some (Inr v, s)"
    by (rule get_dispatch_never_raises [of ?tbl "''ubuntu-latest''" "Alias ''ubuntu''",
          OF DISTROS_ubuntu_latest, THEN conjunct2, THEN conjunct2, rule_format,
          OF DISTROS_inherit_ends [rule_format]])
  show ?thesis using 1 2 by (simp add: sentinel_def numeral_3_eq_3)
qed

text \<open>
  A source name that is not in the table: the lookup stands before the \<^verbatim>\<open>try\<close> and
  its \<^verbatim>\<open>KeyError\<close> leaves \<^verbatim>\<open>get_dispatch\<close>.
\<close>

theorem get_dispatch_never_raises_counterexample:
  "get_dispatch 1 offline_world (DISTROS offline_world) ''gentoo'' (ArgStr ''17.0'') fresh_state
     = Some (Inl KeyError, fresh_state)"
  by (simp add: DISTROS_gentoo)

subsection \<open>Precondition violations at the dispatch\<close>

text \<open>
  Claim C3, as amended. A precondition violation, the rolling-only resolver invoked with
  an argument other than the rolling sentinel, raises \<^verbatim>\<open>AssertionError\<close> in the
  resolver and is caught by the dispatch, which returns the sentinel \<open>(0, 0, 0)\<close>
  with the state unchanged; it does not leave the dispatch.
\<close>

theorem get_dispatch_catches_assertion:
  assumes "arg \<noteq> ArgStr ROLLING"
  shows "get_nixos w arg st = (Inl AssertionError, st)
       \<and> get_dispatch (Suc depth) w (DISTROS w) ''nixos'' arg st = Some (Inr sentinel, st)"
proof
  show "get_nixos w arg st = (Inl AssertionError, st)" using assms by (simp add: get_nixos_def)
  show "get_dispatch (Suc depth) w (DISTROS w) ''nixos'' arg st = Some (Inr sentinel, st)"
    unfolding get_dispatch_found [of "DISTROS w" "''nixos''" "CustomResolver (get_nixos w)", OF DISTROS_nixos]
    by (simp add: dispatch_body_nixos_assert [OF assms])
qed

theorem get_dispatch_catches_assertion_witness:
  "get_nixos (nix_world (Some ''abc'') ''rustc-1.17.0'') (ArgStr ''16.09'') abc_cache
     = (Inl AssertionError, abc_cache)
   \<and> get_dispatch 2 (nix_world (Some ''abc'') ''rustc-1.17.0'')
       (DISTROS (nix_world (Some ''abc'') ''rustc-1.17.0'')) ''nixos'' (ArgStr ''16.09'') abc_cache
     = Some (Inr (0, 0, 0), abc_cache)"
proof -
  have n: "ArgStr ''16.09'' \<noteq> ArgStr ROLLING" by (simp add: ROLLING_def)
  show ?thesis
    using get_dispatch_catches_assertion [OF n, of "nix_world (Some ''abc'') ''rustc-1.17.0''" abc_cache 1]
    by (simp add: sentinel_def numeral_2_eq_2)
qed

text \<open>
  The rolling-only resolver called through the dispatch with the release \<^verbatim>\<open>jessie\<close>:
  the assertion fails and the dispatch returns the sentinel.
\<close>

theorem get_dispatch_catches_assertion_counterexample:
  "get_nixos offline_world (ArgStr ''jessie'') fresh_state = (Inl AssertionError, fresh_state)
   \<and> get_dispatch 1 offline_world (DISTROS offline_world) ''nixos'' (ArgStr ''jessie'') fresh_state
     = Some (Inr (0, 0, 0), fresh_state)"
proof -
  have n: "ArgStr ''jessie'' \<noteq> ArgStr ROLLING" by (simp add: ROLLING_def)
  have g: "get_nixos offline_world (ArgStr ''jessie'') fresh_state = (Inl AssertionError, fresh_state)"
    using n by (simp add: get_nixos_def)
  have p: "parse_semver ''0.0.0'' = Inr (0, 0, 0)"
    using parse_semver_sentinel by (simp only: sentinel_def)
  show ?thesis by (simp add: DISTROS_nixos g p)
qed

end
